theory Spec2Isabelle
  imports Complex_Main "HOL-Library.Word"
begin

unbundle bit_operations_syntax

section \<open>Bit strings and phases\<close>

text \<open>
  \<^verbatim>\<open>Pauli::Bitstring\<close> is \<^verbatim>\<open>uint64_t\<close>. \<^verbatim>\<open>std::popcount\<close> counts the set bits of
  such a value and returns a C++ \<^verbatim>\<open>int\<close>.
\<close>

type_synonym Bitstring = "64 word"

definition popcount :: "Bitstring \<Rightarrow> int" where
  "popcount w = int (length (filter (bit w) [0..<64]))"

text \<open>
  Modelled from the spec: \<^verbatim>\<open>binary_phase.h\<close> is not among the sources. The spec calls
  \<^verbatim>\<open>BinaryPhase\<close> a "tiny arithmetic mod-4 value type" and the phase "a value in the additive
  group mod 4", so a phase is a 2-bit word: construction from an \<^verbatim>\<open>int\<close> reduces mod 4, and
  \<^verbatim>\<open>+\<close>, \<^verbatim>\<open>-\<close>, \<^verbatim>\<open>+=\<close> wrap mod 4. Its \<^verbatim>\<open>toString\<close> is the phase marker the spec
  names (\<^verbatim>\<open>i\<close>, \<^verbatim>\<open>-\<close>, \<^verbatim>\<open>-i\<close> for 1, 2, 3, the values the string constructor of
  \<^verbatim>\<open>Pauli\<close> adds for them), and nothing for phase 0.
\<close>

type_synonym BinaryPhase = "2 word"

definition BinaryPhase_of_int :: "int \<Rightarrow> BinaryPhase" where
  "BinaryPhase_of_int k = word_of_int k"

definition BinaryPhase_toString :: "BinaryPhase \<Rightarrow> string" where
  "BinaryPhase_toString ph =
     (if ph = 1 then ''i'' else if ph = 2 then ''-'' else if ph = 3 then ''-i'' else '''')"

section \<open>The Pauli operator (pauli.h)\<close>

text \<open>
  The struct has the fields \<^verbatim>\<open>r\<close>, \<^verbatim>\<open>s\<close>, \<^verbatim>\<open>n\<close> and \<^verbatim>\<open>phase\<close>; the record prefixes
  them, since one-letter constants would capture the variables of every later statement.
  Equality of records is the defaulted \<^verbatim>\<open>operator==\<close>: all four fields.
\<close>

record Pauli =
  pauli_r :: Bitstring
  pauli_s :: Bitstring
  pauli_n :: int
  pauli_phase :: BinaryPhase

text \<open>The default member initialisers: \<^verbatim>\<open>r{}\<close>, \<^verbatim>\<open>s{}\<close>, \<^verbatim>\<open>n{1}\<close> and a zero phase.\<close>

definition Pauli_default :: Pauli where
  "Pauli_default = \<lparr>pauli_r = 0, pauli_s = 0, pauli_n = 1, pauli_phase = 0\<rparr>"

text \<open>\<^verbatim>\<open>explicit constexpr Pauli(int n)\<close>: the identity on \<open>n\<close> qubits.\<close>

definition Pauli_identity :: "int \<Rightarrow> Pauli" where
  "Pauli_identity k = Pauli_default\<lparr>pauli_n := k\<rparr>"

definition numQubits :: "Pauli \<Rightarrow> int" where
  "numQubits p = pauli_n p"

text \<open>
  Qubit positions are shift counts. C++ defines \<^verbatim>\<open>r >> qubit\<close> and \<^verbatim>\<open>1ULL << qubit\<close>
  only for counts in \<open>[0, 64)\<close>; positions are natural numbers here, and every statement
  below that reads or writes a position bounds it by 64.
\<close>

definition Pauli_x :: "Pauli \<Rightarrow> nat \<Rightarrow> Bitstring" where
  "Pauli_x p qubit = drop_bit qubit (pauli_r p) AND 1"

definition Pauli_z :: "Pauli \<Rightarrow> nat \<Rightarrow> Bitstring" where
  "Pauli_z p qubit = drop_bit qubit (pauli_s p) AND 1"

text \<open>
  \<^verbatim>\<open>r ^= (-value ^ r) & (1ULL << qubit)\<close>: the \<^verbatim>\<open>int\<close> \<^verbatim>\<open>-value\<close> is converted to
  \<^verbatim>\<open>uint64_t\<close> (sign extension, \<open>word_of_int\<close>). \<^verbatim>\<open>setZ\<close> is written in the source with
  \<^verbatim>\<open>r\<close> inside the parentheses: \<^verbatim>\<open>s ^= (-value ^ r) & (1ULL << qubit)\<close>.
\<close>

definition setX :: "Pauli \<Rightarrow> nat \<Rightarrow> int \<Rightarrow> Pauli" where
  "setX p qubit v =
     p\<lparr>pauli_r := pauli_r p XOR ((word_of_int (- v) XOR pauli_r p) AND push_bit qubit 1)\<rparr>"

definition setZ :: "Pauli \<Rightarrow> nat \<Rightarrow> int \<Rightarrow> Pauli" where
  "setZ p qubit v =
     p\<lparr>pauli_s := pauli_s p XOR ((word_of_int (- v) XOR pauli_r p) AND push_bit qubit 1)\<rparr>"

definition SingleX :: "int \<Rightarrow> nat \<Rightarrow> Pauli" where
  "SingleX k qubit = setX (Pauli_identity k) qubit 1"

definition SingleZ :: "int \<Rightarrow> nat \<Rightarrow> Pauli" where
  "SingleZ k qubit = setZ (Pauli_identity k) qubit 1"

definition getYPhase :: "Pauli \<Rightarrow> BinaryPhase" where
  "getYPhase p = BinaryPhase_of_int (popcount (pauli_r p AND pauli_s p))"

definition getPhase :: "Pauli \<Rightarrow> BinaryPhase" where
  "getPhase p = pauli_phase p - getYPhase p"

definition getXZPhase :: "Pauli \<Rightarrow> BinaryPhase" where
  "getXZPhase p = pauli_phase p"

definition increasePhase :: "Pauli \<Rightarrow> int \<Rightarrow> Pauli" where
  "increasePhase p phaseInc = p\<lparr>pauli_phase := pauli_phase p + BinaryPhase_of_int phaseInc\<rparr>"

definition decreasePhase :: "Pauli \<Rightarrow> int \<Rightarrow> Pauli" where
  "decreasePhase p phaseDec = p\<lparr>pauli_phase := pauli_phase p - BinaryPhase_of_int phaseDec\<rparr>"

definition pauliWeight :: "Pauli \<Rightarrow> int" where
  "pauliWeight p = popcount (pauli_r p OR pauli_s p)"

definition identityCount :: "Pauli \<Rightarrow> int" where
  "identityCount p = pauli_n p - pauliWeight p"

definition getIdentityString :: "Pauli \<Rightarrow> Bitstring" where
  "getIdentityString p = NOT (pauli_r p OR pauli_s p)"

definition getXString :: "Pauli \<Rightarrow> Bitstring" where
  "getXString p = pauli_r p"

definition getZString :: "Pauli \<Rightarrow> Bitstring" where
  "getZString p = pauli_s p"

text \<open>
  \<^verbatim>\<open>toString\<close>: one character per position \<open>0 \<le> i < n\<close>, looked up in
  \<^verbatim>\<open>{'I','X','Z','Y'}\<close> at \<^verbatim>\<open>x(i) + z(i) * 2\<close>. (For a negative \<^verbatim>\<open>n\<close> the call
  \<^verbatim>\<open>str.reserve(n)\<close> throws; the statements about \<open>toString\<close> below are about operators
  with \<open>0 \<le> n \<le> 64\<close>.)
\<close>

definition pauliChars :: "char list" where
  "pauliChars = [CHR ''I'', CHR ''X'', CHR ''Z'', CHR ''Y'']"

definition toString :: "Pauli \<Rightarrow> string" where
  "toString p =
     map (\<lambda>i. pauliChars ! unat (Pauli_x p i + Pauli_z p i * 2)) [0..<nat (pauli_n p)]"

text \<open>
  \<^verbatim>\<open>fromStringOperator\<close>: \<^verbatim>\<open>n\<close> becomes the length of the string (an \<^verbatim>\<open>int\<close>; lengths
  stay below \<open>2^31\<close>), then the loop walks the characters with the counter \<^verbatim>\<open>i\<close>;
  \<^verbatim>\<open>'I'\<close> and the \<^verbatim>\<open>default\<close> branch do nothing.
\<close>

fun fromStringLoop :: "string \<Rightarrow> nat \<Rightarrow> Pauli \<Rightarrow> Pauli" where
  "fromStringLoop [] i p = p"
| "fromStringLoop (c # cs) i p =
     fromStringLoop cs (Suc i)
       (if c = CHR ''I'' then p
        else if c = CHR ''X'' then p\<lparr>pauli_r := pauli_r p OR push_bit i 1\<rparr>
        else if c = CHR ''Y'' then
          p\<lparr>pauli_r := pauli_r p OR push_bit i 1, pauli_s := pauli_s p OR push_bit i 1\<rparr>
        else if c = CHR ''Z'' then p\<lparr>pauli_s := pauli_s p OR push_bit i 1\<rparr>
        else p)"

definition fromStringOperator :: "Pauli \<Rightarrow> string \<Rightarrow> Pauli" where
  "fromStringOperator p str = fromStringLoop str 0 (p\<lparr>pauli_n := int (length str)\<rparr>)"

text \<open>
  The string constructor. \<^verbatim>\<open>starts_with\<close> is tested for \<^verbatim>\<open>'i'\<close>, then \<^verbatim>\<open>"-i"\<close>, then
  \<^verbatim>\<open>'-'\<close>; the matched marker is cut off with \<^verbatim>\<open>substr\<close>. \<open>phasePrefix\<close> is that
  case distinction: the phase increment and the rest of the string.
\<close>

definition phasePrefix :: "string \<Rightarrow> int \<times> string" where
  "phasePrefix str =
     (if take 1 str = ''i'' then (1, drop 1 str)
      else if take 2 str = ''-i'' then (3, drop 2 str)
      else if take 1 str = ''-'' then (2, drop 1 str)
      else (0, str))"

definition Pauli_of_string :: "string \<Rightarrow> Pauli" where
  "Pauli_of_string pauliString =
     (let (inc, rest) = phasePrefix pauliString;
          p1 = increasePhase Pauli_default inc;
          p2 = fromStringOperator p1 rest
      in p2\<lparr>pauli_phase := pauli_phase p2 + getYPhase p2\<rparr>)"

text \<open>\<^verbatim>\<open>std::popcount((p1.r & p2.s) ^ (p2.r & p1.s)) & 1\<close>, an \<^verbatim>\<open>int\<close>.\<close>

definition commutator :: "Pauli \<Rightarrow> Pauli \<Rightarrow> int" where
  "commutator p1 p2 =
     popcount ((pauli_r p1 AND pauli_s p2) XOR (pauli_r p2 AND pauli_s p1)) AND 1"

text \<open>
  The formatter prints the marker of \<^verbatim>\<open>getPhase()\<close> when that phase is not zero, then
  \<^verbatim>\<open>toString()\<close>.
\<close>

definition formatPauli :: "Pauli \<Rightarrow> string" where
  "formatPauli op =
     (if getPhase op \<noteq> 0 then BinaryPhase_toString (getPhase op) else '''') @ toString op"

text \<open>
  The invariant of the data model: a bit of \<^verbatim>\<open>r\<close> or \<^verbatim>\<open>s\<close> is set only at a position
  that the operator has, and the operator has at most 64 positions.
\<close>

definition wellFormed :: "Pauli \<Rightarrow> bool" where
  "wellFormed p \<longleftrightarrow>
     0 \<le> pauli_n p \<and> pauli_n p \<le> 64 \<and>
     (\<forall>i \<in> set [nat (pauli_n p)..<64]. \<not> bit (pauli_r p) i \<and> \<not> bit (pauli_s p) i)"

text \<open>The alphabet of the string encoding.\<close>

definition isPauliChar :: "char \<Rightarrow> bool" where
  "isPauliChar c \<longleftrightarrow> c = CHR ''I'' \<or> c = CHR ''X'' \<or> c = CHR ''Y'' \<or> c = CHR ''Z''"

section \<open>The external solver\<close>

text \<open>
  \<^verbatim>\<open>find_ht_circuit.h\<close> drives the Gurobi C++ interface, which is not part of the
  repository. The model keeps what the code hands to the solver (variables with bounds and
  type, quadratic and linear equality constraints, the objective) and takes the solver's
  behaviour as a parameter.
\<close>

subsection \<open>Exceptions and outcomes\<close>

text \<open>
  What the handlers distinguish: a \<^verbatim>\<open>GRBException\<close> with its error code and message, and
  anything else (\<^verbatim>\<open>catch (...)\<close>). A computation inside the \<^verbatim>\<open>try\<close> block returns, throws,
  aborts on a failed \<^verbatim>\<open>assert\<close>, or indexes a container out of range (undefined in C++).
\<close>

datatype exn = GRBException int string | OtherException

datatype 'a outcome = Normal 'a | Throw exn | Abort | Undefined

fun andThen :: "'a outcome \<Rightarrow> ('a \<Rightarrow> 'b outcome) \<Rightarrow> 'b outcome" where
  "andThen (Normal x) f = f x"
| "andThen (Throw e) f = Throw e"
| "andThen Abort f = Abort"
| "andThen Undefined f = Undefined"

text \<open>A \<^verbatim>\<open>for\<close> loop whose body may leave the normal path.\<close>

fun forEach :: "('i \<Rightarrow> 's \<Rightarrow> 's outcome) \<Rightarrow> 'i list \<Rightarrow> 's \<Rightarrow> 's outcome" where
  "forEach body [] s = Normal s"
| "forEach body (i # is) s = andThen (body i s) (forEach body is)"

text \<open>\<^verbatim>\<open>operator[]\<close> of \<^verbatim>\<open>std::vector\<close>: defined inside the range only.\<close>

definition vecAt :: "'a list \<Rightarrow> nat \<Rightarrow> 'a outcome" where
  "vecAt xs i = (if i < length xs then Normal (xs ! i) else Undefined)"

text \<open>\<^verbatim>\<open>std::to_string\<close> on the loop counters, which are never negative, and on an \<^verbatim>\<open>int\<close>.\<close>

fun to_string :: "nat \<Rightarrow> string" where
  "to_string k =
     (if k < 10 then [char_of (48 + k)]
      else to_string (k div 10) @ [char_of (48 + k mod 10)])"

declare to_string.simps [simp del]

definition to_string_int :: "int \<Rightarrow> string" where
  "to_string_int k = (if k < 0 then ''-'' @ to_string (nat (- k)) else to_string (nat k))"

subsection \<open>The optimisation model\<close>

datatype vtype = GRB_BINARY | GRB_INTEGER

record GRBVarDecl =
  var_lb :: real
  var_ub :: real
  var_obj :: real
  var_type :: vtype
  var_name :: string

text \<open>A \<^verbatim>\<open>GRBVar\<close> is a handle: the position of the variable in the model.\<close>

type_synonym GRBVar = nat

text \<open>A \<^verbatim>\<open>GRBLinExpr\<close>: a constant and a list of coefficient-variable terms.\<close>

record GRBLinExpr =
  lin_const :: real
  lin_terms :: "(real \<times> GRBVar) list"

definition linZero :: GRBLinExpr where
  "linZero = \<lparr>lin_const = 0, lin_terms = []\<rparr>"

definition linAddConst :: "GRBLinExpr \<Rightarrow> real \<Rightarrow> GRBLinExpr" where
  "linAddConst e c = e\<lparr>lin_const := lin_const e + c\<rparr>"

definition linAddVar :: "GRBLinExpr \<Rightarrow> GRBVar \<Rightarrow> GRBLinExpr" where
  "linAddVar e v = e\<lparr>lin_terms := lin_terms e @ [(1, v)]\<rparr>"

definition linScale :: "GRBLinExpr \<Rightarrow> real \<Rightarrow> GRBLinExpr" where
  "linScale e c =
     \<lparr>lin_const = lin_const e * c, lin_terms = map (\<lambda>(k, v). (k * c, v)) (lin_terms e)\<rparr>"

definition linAdd :: "GRBLinExpr \<Rightarrow> GRBLinExpr \<Rightarrow> GRBLinExpr" where
  "linAdd e p = \<lparr>lin_const = lin_const e + lin_const p, lin_terms = lin_terms e @ lin_terms p\<rparr>"

text \<open>
  \<^verbatim>\<open>addQConstr(a * b + c * d == 1, name)\<close>: a sum of products of two variables against a
  number. \<^verbatim>\<open>addConstr(expr == var, name)\<close>: a linear expression against a variable.
\<close>

record GRBQConstr =
  qc_products :: "(GRBVar \<times> GRBVar) list"
  qc_rhs :: real
  qc_name :: string

record GRBConstr =
  c_lhs :: GRBLinExpr
  c_rhs :: GRBVar
  c_name :: string

record GRBModel =
  m_objective :: GRBLinExpr
  m_vars :: "GRBVarDecl list"
  m_qconstrs :: "GRBQConstr list"
  m_constrs :: "GRBConstr list"

definition emptyModel :: GRBModel where
  "emptyModel = \<lparr>m_objective = linZero, m_vars = [], m_qconstrs = [], m_constrs = []\<rparr>"

text \<open>
  What it means for an assignment of values to the variables to satisfy the model: every
  variable within its bounds and of its type, every constraint an equality.
\<close>

definition evalLin :: "(GRBVar \<Rightarrow> real) \<Rightarrow> GRBLinExpr \<Rightarrow> real" where
  "evalLin a e = lin_const e + sum_list (map (\<lambda>(c, v). c * a v) (lin_terms e))"

definition varAdmits :: "GRBVarDecl \<Rightarrow> real \<Rightarrow> bool" where
  "varAdmits d x \<longleftrightarrow>
     var_lb d \<le> x \<and> x \<le> var_ub d \<and>
     (case var_type d of GRB_BINARY \<Rightarrow> x = 0 \<or> x = 1 | GRB_INTEGER \<Rightarrow> of_int \<lfloor>x\<rfloor> = x)"

definition qconstrHolds :: "(GRBVar \<Rightarrow> real) \<Rightarrow> GRBQConstr \<Rightarrow> bool" where
  "qconstrHolds a q \<longleftrightarrow> sum_list (map (\<lambda>(u, v). a u * a v) (qc_products q)) = qc_rhs q"

definition constrHolds :: "(GRBVar \<Rightarrow> real) \<Rightarrow> GRBConstr \<Rightarrow> bool" where
  "constrHolds a c \<longleftrightarrow> evalLin a (c_lhs c) = a (c_rhs c)"

definition satisfies :: "GRBModel \<Rightarrow> (GRBVar \<Rightarrow> real) \<Rightarrow> bool" where
  "satisfies m a \<longleftrightarrow>
     list_all (\<lambda>i. varAdmits (m_vars m ! i) (a i)) [0..<length (m_vars m)] \<and>
     list_all (qconstrHolds a) (m_qconstrs m) \<and>
     list_all (constrHolds a) (m_constrs m)"

subsection \<open>Symbolic terms and gates\<close>

text \<open>
  Modelled from the spec: \<^verbatim>\<open>symbolic.h\<close> is not among the sources. A \<^verbatim>\<open>Variable\<close> has a
  \<^verbatim>\<open>name\<close>; a simplified \<^verbatim>\<open>Term\<close> has \<^verbatim>\<open>numbers\<close> (to be summed), \<^verbatim>\<open>variables\<close>
  (first-degree occurrences, to be summed) and \<^verbatim>\<open>products\<close>, each of which has \<^verbatim>\<open>sums\<close>,
  \<^verbatim>\<open>numbers\<close> and \<^verbatim>\<open>variables\<close>. These are the members the code reads.
\<close>

datatype Variable = Variable (variable_name: string)

record Product =
  p_sums :: "Variable list list"
  p_numbers :: "complex list"
  p_variables :: "Variable list"

record Term =
  t_numbers :: "complex list"
  t_variables :: "Variable list"
  t_products :: "Product list"

text \<open>
  Modelled from the spec: \<^verbatim>\<open>binary_pauli.h\<close> is not among the sources. A gate descriptor
  is "a 2x2 binary symplectic matrix (four bits: axx, axz, azx, azz)".
\<close>

record BinaryCliffordGate =
  gate_axx :: int
  gate_axz :: int
  gate_azx :: int
  gate_azz :: int

subsection \<open>The collaborators of one call\<close>

text \<open>
  \<^item> \<open>grb_fault k\<close>: the exception, if any, that the \<open>k\<close>-th call into the solver library
    raises (licence, resources, numerical failure);
  \<^item> \<open>grb_optimize m\<close>: the status code and the values of the variables that
    \<^verbatim>\<open>optimize()\<close> leaves for the model \<open>m\<close>;
  \<^item> \<open>asserts_enabled\<close>: whether the build keeps \<^verbatim>\<open>assert\<close> (no \<^verbatim>\<open>NDEBUG\<close>);
  \<^item> \<open>simplifiedTerm\<close>: \<^verbatim>\<open>simplified\<close> of \<^verbatim>\<open>symbolic.h\<close> on a term;
  \<^item> \<open>gate_entry\<close>: the conversion of a solution value (a \<^verbatim>\<open>double\<close>) to an entry of a
    \<^verbatim>\<open>BinaryCliffordGate\<close>.
\<close>

record Env =
  grb_fault :: "nat \<Rightarrow> exn option"
  grb_optimize :: "GRBModel \<Rightarrow> int \<times> (GRBVar \<Rightarrow> real)"
  asserts_enabled :: bool
  simplifiedTerm :: "Term \<Rightarrow> Term"
  gate_entry :: "real \<Rightarrow> int"

text \<open>The model under construction and the number of library calls made so far.\<close>

record Run =
  run_model :: GRBModel
  run_calls :: nat

definition grbCall :: "Env \<Rightarrow> Run \<Rightarrow> Run outcome" where
  "grbCall env st =
     (case grb_fault env (run_calls st) of
        Some e \<Rightarrow> Throw e
      | None \<Rightarrow> Normal (st\<lparr>run_calls := Suc (run_calls st)\<rparr>))"

definition addVar ::
  "Env \<Rightarrow> real \<Rightarrow> real \<Rightarrow> real \<Rightarrow> vtype \<Rightarrow> string \<Rightarrow> Run \<Rightarrow> (GRBVar \<times> Run) outcome" where
  "addVar env lb ub obj ty nm st =
     andThen (grbCall env st) (\<lambda>st.
       let m = run_model st;
           d = \<lparr>var_lb = lb, var_ub = ub, var_obj = obj, var_type = ty, var_name = nm\<rparr>
       in Normal (length (m_vars m), st\<lparr>run_model := m\<lparr>m_vars := m_vars m @ [d]\<rparr>\<rparr>))"

definition addQConstr :: "Env \<Rightarrow> GRBQConstr \<Rightarrow> Run \<Rightarrow> Run outcome" where
  "addQConstr env q st =
     andThen (grbCall env st) (\<lambda>st.
       let m = run_model st
       in Normal (st\<lparr>run_model := m\<lparr>m_qconstrs := m_qconstrs m @ [q]\<rparr>\<rparr>))"

definition addConstr :: "Env \<Rightarrow> GRBConstr \<Rightarrow> Run \<Rightarrow> Run outcome" where
  "addConstr env c st =
     andThen (grbCall env st) (\<lambda>st.
       let m = run_model st
       in Normal (st\<lparr>run_model := m\<lparr>m_constrs := m_constrs m @ [c]\<rparr>\<rparr>))"

section \<open>findHTCircuit (find_ht_circuit.h)\<close>

subsection \<open>The try block\<close>

text \<open>
  Lines 49 to 132 of the fixed-size overload and lines 169 to 252 of the dynamic one are the
  same text, up to the container of the result (\<^verbatim>\<open>std::array\<close> or \<^verbatim>\<open>std::vector\<close>); the
  model has them once, with \<^verbatim>\<open>numQubits\<close>, \<^verbatim>\<open>numEqs\<close> and \<^verbatim>\<open>lhs\<close> as arguments.
\<close>

text \<open>
  The environment is created, configured twice and started, the model is created and the
  objective \<^verbatim>\<open>GRBLinExpr{0}\<close> is set: six calls into the library.
\<close>

definition startModel :: "Env \<Rightarrow> Run outcome" where
  "startModel env =
     forEach (\<lambda>(_ :: nat). grbCall env) [0..<6] \<lparr>run_model = emptyModel, run_calls = 0\<rparr>"

record AVars =
  axxVars :: "GRBVar list"
  axzVars :: "GRBVar list"
  azxVars :: "GRBVar list"
  azzVars :: "GRBVar list"

definition noVars :: AVars where
  "noVars = \<lparr>axxVars = [], axzVars = [], azxVars = [], azzVars = []\<rparr>"

text \<open>
  The body of the first loop: four binary variables, pushed onto their vectors, and the
  quadratic constraint \<^verbatim>\<open>axxVars[i] * azzVars[i] + axzVars[i] * azxVars[i] == 1\<close>.
\<close>

definition addQubit :: "Env \<Rightarrow> nat \<Rightarrow> AVars \<times> Run \<Rightarrow> (AVars \<times> Run) outcome" where
  "addQubit env i s =
     (case s of (av, st) \<Rightarrow>
      andThen (addVar env 0 1 0 GRB_BINARY (''axx'' @ to_string i) st) (\<lambda>(v, st).
      let av = av\<lparr>axxVars := axxVars av @ [v]\<rparr> in
      andThen (addVar env 0 1 0 GRB_BINARY (''axz'' @ to_string i) st) (\<lambda>(v, st).
      let av = av\<lparr>axzVars := axzVars av @ [v]\<rparr> in
      andThen (addVar env 0 1 0 GRB_BINARY (''azx'' @ to_string i) st) (\<lambda>(v, st).
      let av = av\<lparr>azxVars := azxVars av @ [v]\<rparr> in
      andThen (addVar env 0 1 0 GRB_BINARY (''azz'' @ to_string i) st) (\<lambda>(v, st).
      let av = av\<lparr>azzVars := azzVars av @ [v]\<rparr> in
      andThen (vecAt (axxVars av) i) (\<lambda>xx.
      andThen (vecAt (azzVars av) i) (\<lambda>zz.
      andThen (vecAt (axzVars av) i) (\<lambda>xz.
      andThen (vecAt (azxVars av) i) (\<lambda>zx.
      andThen (addQConstr env
                 \<lparr>qc_products = [(xx, zz), (xz, zx)], qc_rhs = 1,
                  qc_name = ''qc'' @ to_string i\<rparr> st) (\<lambda>st.
      Normal (av, st)))))))))))"

text \<open>
  \<^verbatim>\<open>getVar\<close> reads three characters of the symbol's name: \<^verbatim>\<open>name[1]\<close> and \<^verbatim>\<open>name[2]\<close>
  select one of the four vectors, \<^verbatim>\<open>name[3] - '0'\<close> is the position in it.
  \<^verbatim>\<open>std::string::operator[]\<close> is defined up to the length (where it yields the null
  character); \<^verbatim>\<open>char\<close> is signed.
\<close>

definition charAt :: "string \<Rightarrow> nat \<Rightarrow> char outcome" where
  "charAt s k =
     (if k < length s then Normal (s ! k)
      else if k = length s then Normal (CHR 0x00)
      else Undefined)"

definition charToInt :: "char \<Rightarrow> int" where
  "charToInt c = (if of_char c < (128 :: int) then of_char c else of_char c - 256)"

definition getVar :: "AVars \<Rightarrow> Variable \<Rightarrow> GRBVar outcome" where
  "getVar av t =
     andThen (charAt (variable_name t) 1) (\<lambda>c1.
     andThen (charAt (variable_name t) 2) (\<lambda>c2.
     andThen (charAt (variable_name t) 3) (\<lambda>c3.
     let aVars = [axxVars av, axzVars av, azxVars av, azzVars av];
         vec = aVars ! ((if c1 = CHR ''z'' then 2 else 0) + (if c2 = CHR ''z'' then 1 else 0));
         idx = charToInt c3 - 48
     in if idx < 0 then Undefined else vecAt vec (nat idx))))"

text \<open>
  \<^verbatim>\<open>toGRBLinExpression\<close>: the real parts of the numbers and the variables of the simplified
  term are added up. A term with products fails the \<^verbatim>\<open>assert\<close>; without the \<^verbatim>\<open>assert\<close> each
  product adds an expression \<^verbatim>\<open>p\<close> that starts empty and is only scaled (the line that would
  multiply the variables in is commented out).
\<close>

definition toGRBLinExpression :: "Env \<Rightarrow> AVars \<Rightarrow> Term \<Rightarrow> GRBLinExpr outcome" where
  "toGRBLinExpression env av t =
     (let simplifiedT = simplifiedTerm env t;
          expr = foldl (\<lambda>e c. linAddConst e (Re c)) linZero (t_numbers simplifiedT)
      in
      andThen (forEach (\<lambda>c e. andThen (getVar av c) (\<lambda>v. Normal (linAddVar e v)))
                 (t_variables simplifiedT) expr) (\<lambda>expr.
      if asserts_enabled env \<and> t_products simplifiedT \<noteq> [] then Abort
      else forEach
             (\<lambda>c e.
                if asserts_enabled env \<and> p_sums c \<noteq> [] then Abort
                else let p = foldl (\<lambda>p d. linScale p (Re d)) linZero (p_numbers c)
                     in Normal (linAdd e p))
             (t_products simplifiedT) expr))"

text \<open>The dummy variables: \<^verbatim>\<open>model.addVar(-1000, 1000, 0.0, GRB_INTEGER, "")\<close>.\<close>

definition addDummy :: "Env \<Rightarrow> nat \<Rightarrow> GRBVar list \<times> Run \<Rightarrow> (GRBVar list \<times> Run) outcome" where
  "addDummy env i s =
     (case s of (dummyVars, st) \<Rightarrow>
      andThen (addVar env (- 1000) 1000 0 GRB_INTEGER '''' st) (\<lambda>(v, st).
      Normal (dummyVars @ [v], st)))"

text \<open>
  The body of the loop over \<^verbatim>\<open>lhs\<close>, with its counter:
  \<^verbatim>\<open>model.addConstr(toGRBLinExpression(row) * 0.5 == dummyVars[i], "i" + std::to_string(i))\<close>.
\<close>

definition addEquation ::
  "Env \<Rightarrow> AVars \<Rightarrow> GRBVar list \<Rightarrow> Term \<Rightarrow> nat \<times> Run \<Rightarrow> (nat \<times> Run) outcome" where
  "addEquation env av dummyVars row s =
     (case s of (i, st) \<Rightarrow>
      andThen (toGRBLinExpression env av row) (\<lambda>e.
      andThen (vecAt dummyVars i) (\<lambda>d.
      andThen (addConstr env
                 \<lparr>c_lhs = linScale e 0.5, c_rhs = d, c_name = ''i'' @ to_string i\<rparr> st) (\<lambda>st.
      Normal (Suc i, st)))))"

text \<open>Everything up to \<^verbatim>\<open>model.optimize()\<close>.\<close>

definition buildModel ::
  "Env \<Rightarrow> nat \<Rightarrow> nat \<Rightarrow> Term list \<Rightarrow> (AVars \<times> Run) outcome" where
  "buildModel env nQubits numEqs lhs =
     andThen (startModel env) (\<lambda>st.
     andThen (forEach (addQubit env) [0..<nQubits] (noVars, st)) (\<lambda>(av, st).
     andThen (forEach (addDummy env) [0..<numEqs] ([], st)) (\<lambda>(dummyVars, st).
     andThen (forEach (addEquation env av dummyVars) lhs (0, st)) (\<lambda>(i, st).
     Normal (av, st)))))"

text \<open>
  \<^verbatim>\<open>model.optimize()\<close> and \<^verbatim>\<open>model.get(GRB_IntAttr_Status)\<close>: two more calls; the status is
  the one the solver leaves for the model built.
\<close>

definition optimizeModel :: "Env \<Rightarrow> Run \<Rightarrow> (int \<times> Run) outcome" where
  "optimizeModel env st =
     andThen (grbCall env st) (\<lambda>st.
     andThen (grbCall env st) (\<lambda>st.
     Normal (fst (grb_optimize env (run_model st)), st)))"

text \<open>
  Reading the solution back: four \<^verbatim>\<open>get(GRB_DoubleAttr_X)\<close> per qubit. Position \<open>i\<close> of
  \<^verbatim>\<open>singleQubitLayer\<close> is written in iteration \<open>i\<close> and never read before, so the layer is
  the list of the gates in the order of the iterations.
\<close>

definition getX :: "Env \<Rightarrow> GRBVar list \<Rightarrow> nat \<Rightarrow> Run \<Rightarrow> (real \<times> Run) outcome" where
  "getX env vec i st =
     andThen (vecAt vec i) (\<lambda>v.
     andThen (grbCall env st) (\<lambda>st.
     Normal (snd (grb_optimize env (run_model st)) v, st)))"

definition readGate ::
  "Env \<Rightarrow> AVars \<Rightarrow> nat \<Rightarrow> BinaryCliffordGate list \<times> Run \<Rightarrow>
   (BinaryCliffordGate list \<times> Run) outcome" where
  "readGate env av i s =
     (case s of (singleQubitLayer, st) \<Rightarrow>
      andThen (getX env (axxVars av) i st) (\<lambda>(xx, st).
      andThen (getX env (axzVars av) i st) (\<lambda>(xz, st).
      andThen (getX env (azxVars av) i st) (\<lambda>(zx, st).
      andThen (getX env (azzVars av) i st) (\<lambda>(zz, st).
      Normal (singleQubitLayer @
                [\<lparr>gate_axx = gate_entry env xx, gate_axz = gate_entry env xz,
                  gate_azx = gate_entry env zx, gate_azz = gate_entry env zz\<rparr>], st))))))"

definition tryBlock ::
  "Env \<Rightarrow> nat \<Rightarrow> nat \<Rightarrow> Term list \<Rightarrow> BinaryCliffordGate list option outcome" where
  "tryBlock env nQubits numEqs lhs =
     andThen (buildModel env nQubits numEqs lhs) (\<lambda>(av, st).
     andThen (optimizeModel env st) (\<lambda>(status, st).
     if status \<noteq> 2 then Normal None
     else andThen (forEach (readGate env av) [0..<nQubits] ([], st)) (\<lambda>(singleQubitLayer, st).
          Normal (Some singleQubitLayer))))"

subsection \<open>The handlers\<close>

text \<open>
  What a call of \<^verbatim>\<open>findHTCircuit\<close> can do: return (after printing some lines to
  \<^verbatim>\<open>std::cout\<close>) the gates or \<^verbatim>\<open>std::nullopt\<close>, let an exception escape to its caller,
  abort, or run into undefined behaviour. The lines are those of the handlers; what
  \<^verbatim>\<open>verbose\<close> prints goes to the same stream and is left out.
\<close>

datatype result =
    Returned "string list" "BinaryCliffordGate list option"
  | Propagated exn
  | Aborted
  | UndefinedBehaviour

fun diagnostic :: "exn \<Rightarrow> string list" where
  "diagnostic (GRBException code msg) =
     [''Error code = '' @ to_string_int code @ [CHR 0x0A], msg @ [CHR 0x0A]]"
| "diagnostic OtherException = [''Exception during optimization'' @ [CHR 0x0A]]"

definition tryCatch ::
  "Env \<Rightarrow> nat \<Rightarrow> nat \<Rightarrow> Term list \<Rightarrow> result" where
  "tryCatch env nQubits numEqs lhs =
     (case tryBlock env nQubits numEqs lhs of
        Normal r \<Rightarrow> Returned [] r
      | Throw e \<Rightarrow> Returned (diagnostic e) None
      | Abort \<Rightarrow> Aborted
      | Undefined \<Rightarrow> UndefinedBehaviour)"

subsection \<open>The two overloads\<close>

text \<open>
  Modelled from the spec: \<^verbatim>\<open>graph.h\<close> is not among the sources. A graph has \<open>n\<close> vertices
  and "a symmetric 0/1 adjacency matrix"; \<^verbatim>\<open>cast<int>()\<close> turns an entry into 0 or 1.
\<close>

record Graph =
  numVertices :: nat
  adjacencyMatrix :: "nat \<Rightarrow> nat \<Rightarrow> bool"

text \<open>
  The matrices \<^verbatim>\<open>R(i, j) = RS[j].x(i)\<close> and \<^verbatim>\<open>S(i, j) = RS[j].z(i)\<close>, for \<open>i\<close> below the
  number of qubits and \<open>j\<close> below the number of operators. Filling them reads \<^verbatim>\<open>RS[j]\<close>,
  defined for \<open>j\<close> below the size of \<^verbatim>\<open>RS\<close>, and shifts by \<open>i\<close>, defined below 64.
\<close>

definition matrixR :: "Pauli list \<Rightarrow> nat \<Rightarrow> nat \<Rightarrow> int" where
  "matrixR RS i j = uint (Pauli_x (RS ! j) i)"

definition matrixS :: "Pauli list \<Rightarrow> nat \<Rightarrow> nat \<Rightarrow> int" where
  "matrixS RS i j = uint (Pauli_z (RS ! j) i)"

definition generatorsReadable :: "nat \<Rightarrow> nat \<Rightarrow> Pauli list \<Rightarrow> bool" where
  "generatorsReadable nQubits numOperatorsPerSet RS \<longleftrightarrow>
     (nQubits = 0 \<or> numOperatorsPerSet \<le> length RS) \<and>
     (numOperatorsPerSet = 0 \<or> nQubits \<le> 64)"

text \<open>
  Modelled from the spec: \<^verbatim>\<open>generateSymbolVector\<close>, \<^verbatim>\<open>Math::diag\<close>, the matrix product
  and sum over symbolic entries and \<^verbatim>\<open>simplified\<close> are not among the sources. The
  diagonal matrix of a block holds "one fresh symbol \<^verbatim>\<open>prefix<i>\<close> at position (i,i)": the
  name is the prefix followed by the index, written in decimal as \<^verbatim>\<open>std::to_string\<close> writes
  it (the source names the solver variables \<^verbatim>\<open>"axx" + std::to_string(i)\<close>). For an index
  below 10 this is the "4-character tag" of the spec, with the "qubit index appended as the
  final character". The entry \<open>(i, j)\<close> of
  \<^verbatim>\<open>lhs = simplified(adjacency * (Axx * R + Axz * S) + Azx * R + Azz * S)\<close>, with the
  diagonal symbol matrices and the 0/1 matrices above, is the sum of the symbols \<open>axx k\<close> for
  the neighbours \<open>k\<close> of \<open>i\<close> with \<open>R k j = 1\<close>, of \<open>axz k\<close> for those with \<open>S k j = 1\<close>, of
  \<open>azx i\<close> if \<open>R i j = 1\<close> and of \<open>azz i\<close> if \<open>S i j = 1\<close>: a term without numbers and
  without products. The matrix is walked row by row.
\<close>

definition generateSymbol :: "string \<Rightarrow> nat \<Rightarrow> Variable" where
  "generateSymbol pre i = Variable (pre @ to_string i)"

definition lhsEntry ::
  "Graph \<Rightarrow> nat \<Rightarrow> (nat \<Rightarrow> nat \<Rightarrow> int) \<Rightarrow> (nat \<Rightarrow> nat \<Rightarrow> int) \<Rightarrow> nat \<Rightarrow> nat \<Rightarrow> Term" where
  "lhsEntry graph nQubits R S i j =
     \<lparr>t_numbers = [],
      t_variables =
        map (generateSymbol ''axx'')
          (filter (\<lambda>k. adjacencyMatrix graph i k \<and> R k j = 1) [0..<nQubits]) @
        map (generateSymbol ''axz'')
          (filter (\<lambda>k. adjacencyMatrix graph i k \<and> S k j = 1) [0..<nQubits]) @
        (if R i j = 1 then [generateSymbol ''azx'' i] else []) @
        (if S i j = 1 then [generateSymbol ''azz'' i] else []),
      t_products = []\<rparr>"

definition lhsMatrix ::
  "Graph \<Rightarrow> nat \<Rightarrow> nat \<Rightarrow> (nat \<Rightarrow> nat \<Rightarrow> int) \<Rightarrow> (nat \<Rightarrow> nat \<Rightarrow> int) \<Rightarrow> Term list" where
  "lhsMatrix graph nQubits numOperatorsPerSet R S =
     concat (map (\<lambda>i. map (\<lambda>j. lhsEntry graph nQubits R S i j) [0..<numOperatorsPerSet])
               [0..<nQubits])"

text \<open>
  \<^verbatim>\<open>template<int numQubits> findHTCircuit(const Graph<numQubits>&, auto RS, bool)\<close>: the
  number of operators is the number of qubits
  (\<^verbatim>\<open>constexpr auto numOperatorsPerSet = numQubits; // generator suffices\<close>).
\<close>

definition findHTCircuit_fixed :: "Env \<Rightarrow> nat \<Rightarrow> Graph \<Rightarrow> Pauli list \<Rightarrow> result" where
  "findHTCircuit_fixed env nQubits graph RS =
     (let numOperatorsPerSet = nQubits;
          numEqs = nQubits * numOperatorsPerSet
      in if \<not> generatorsReadable nQubits numOperatorsPerSet RS then UndefinedBehaviour
         else tryCatch env nQubits numEqs
                (lhsMatrix graph nQubits numOperatorsPerSet (matrixR RS) (matrixS RS)))"

text \<open>
  \<^verbatim>\<open>findHTCircuit(const Graph<>&, auto RS, bool)\<close>: the number of qubits is
  \<^verbatim>\<open>graph.numVertices()\<close>, the number of operators is \<^verbatim>\<open>RS.size()\<close>.
\<close>

definition findHTCircuit :: "Env \<Rightarrow> Graph \<Rightarrow> Pauli list \<Rightarrow> result" where
  "findHTCircuit env graph RS =
     (let nQubits = numVertices graph;
          numOperatorsPerSet = length RS;
          numEqs = nQubits * numOperatorsPerSet
      in if \<not> generatorsReadable nQubits numOperatorsPerSet RS then UndefinedBehaviour
         else tryCatch env nQubits numEqs
                (lhsMatrix graph nQubits numOperatorsPerSet (matrixR RS) (matrixS RS)))"

section \<open>Notions used in the statements\<close>

text \<open>The symplectic condition on a gate descriptor.\<close>

definition symplectic :: "BinaryCliffordGate \<Rightarrow> bool" where
  "symplectic g \<longleftrightarrow> (gate_axx g * gate_azz g + gate_axz g * gate_azx g) mod 2 = 1"

text \<open>
  The solver is sound: whenever it reports status 2 (optimal), the values it leaves satisfy
  every variable declaration and every constraint of the model it was given.
\<close>

definition soundSolver :: "Env \<Rightarrow> bool" where
  "soundSolver env \<longleftrightarrow>
     (\<forall>m. fst (grb_optimize env m) = 2 \<longrightarrow> satisfies m (snd (grb_optimize env m)))"

text \<open>
  The defining equation system, in the words of the spec: for every qubit \<open>i\<close> and generator
  \<open>j\<close>, \<open>(Adjacency (Axx R + Axz S))[i,j] + (Azx R + Azz S)[i,j]\<close> is 0 mod 2, with the gate
  entries of qubit \<open>k\<close> on the diagonals.
\<close>

definition definingExpr ::
  "Graph \<Rightarrow> nat \<Rightarrow> Pauli list \<Rightarrow> BinaryCliffordGate list \<Rightarrow> nat \<Rightarrow> nat \<Rightarrow> int" where
  "definingExpr graph nQubits RS gates i j =
     sum_list (map (\<lambda>k. of_bool (adjacencyMatrix graph i k) *
                        (gate_axx (gates ! k) * matrixR RS k j +
                         gate_axz (gates ! k) * matrixS RS k j)) [0..<nQubits]) +
     gate_azx (gates ! i) * matrixR RS i j + gate_azz (gates ! i) * matrixS RS i j"

definition definingSystem :: "Graph \<Rightarrow> nat \<Rightarrow> Pauli list \<Rightarrow> BinaryCliffordGate list \<Rightarrow> bool" where
  "definingSystem graph nQubits RS gates \<longleftrightarrow>
     list_all (\<lambda>i. list_all (\<lambda>j. definingExpr graph nQubits RS gates i j mod 2 = 0)
                     [0..<length RS]) [0..<nQubits]"

text \<open>
  The model that a run without faults builds, in closed form: four binary variables per
  qubit, then the dummy variables; one quadratic constraint per qubit; one linear constraint
  per entry of \<^verbatim>\<open>lhs\<close>.
\<close>

definition binaryDecl :: "string \<Rightarrow> nat \<Rightarrow> GRBVarDecl" where
  "binaryDecl pre i =
     \<lparr>var_lb = 0, var_ub = 1, var_obj = 0, var_type = GRB_BINARY, var_name = pre @ to_string i\<rparr>"

definition dummyDecl :: GRBVarDecl where
  "dummyDecl =
     \<lparr>var_lb = - 1000, var_ub = 1000, var_obj = 0, var_type = GRB_INTEGER, var_name = ''''\<rparr>"

definition qubitDecls :: "nat \<Rightarrow> GRBVarDecl list" where
  "qubitDecls i =
     [binaryDecl ''axx'' i, binaryDecl ''axz'' i, binaryDecl ''azx'' i, binaryDecl ''azz'' i]"

definition symplecticConstr :: "nat \<Rightarrow> GRBQConstr" where
  "symplecticConstr i =
     \<lparr>qc_products = [(4 * i, 4 * i + 3), (4 * i + 1, 4 * i + 2)], qc_rhs = 1,
      qc_name = ''qc'' @ to_string i\<rparr>"

definition qubitVars :: "nat \<Rightarrow> AVars" where
  "qubitVars n =
     \<lparr>axxVars = map (\<lambda>i. 4 * i) [0..<n], axzVars = map (\<lambda>i. 4 * i + 1) [0..<n],
      azxVars = map (\<lambda>i. 4 * i + 2) [0..<n], azzVars = map (\<lambda>i. 4 * i + 3) [0..<n]\<rparr>"

definition linOf :: "Env \<Rightarrow> AVars \<Rightarrow> Term \<Rightarrow> GRBLinExpr" where
  "linOf env av row = (case toGRBLinExpression env av row of Normal e \<Rightarrow> e | _ \<Rightarrow> linZero)"

definition halfConstr :: "Env \<Rightarrow> nat \<Rightarrow> nat \<Rightarrow> Term \<Rightarrow> GRBConstr" where
  "halfConstr env n i row =
     \<lparr>c_lhs = linScale (linOf env (qubitVars n) row) 0.5, c_rhs = 4 * n + i,
      c_name = ''i'' @ to_string i\<rparr>"

definition builtModel :: "Env \<Rightarrow> nat \<Rightarrow> nat \<Rightarrow> Term list \<Rightarrow> GRBModel" where
  "builtModel env n numEqs lhs =
     \<lparr>m_objective = linZero,
      m_vars = concat (map qubitDecls [0..<n]) @ replicate numEqs dummyDecl,
      m_qconstrs = map symplecticConstr [0..<n],
      m_constrs = map (\<lambda>(i, row). halfConstr env n i row) (zip [0..<length lhs] lhs)\<rparr>"


text \<open>
  No call into the library from the \<open>a\<close>-th up to (and without) the \<open>b\<close>-th raises an
  exception; the \<open>k\<close>-th call is the first that raises one, and raises \<open>e\<close>.
\<close>

definition noFault :: "Env \<Rightarrow> nat \<Rightarrow> nat \<Rightarrow> bool" where
  "noFault env a b \<longleftrightarrow> list_all (\<lambda>k. grb_fault env k = None) [a..<b]"

definition firstFault :: "Env \<Rightarrow> nat \<Rightarrow> exn \<Rightarrow> bool" where
  "firstFault env k e \<longleftrightarrow> grb_fault env k = Some e \<and> noFault env 0 k"

text \<open>
  The calls into the library that the try block makes until it has read the status: six to
  start, five per qubit, one per dummy variable, one per linear constraint, then
  \<^verbatim>\<open>optimize\<close> and \<^verbatim>\<open>get(GRB_IntAttr_Status)\<close>. With status 2 it makes four more per qubit
  to read the solution.
\<close>

definition callsToSolve :: "nat \<Rightarrow> nat \<Rightarrow> Term list \<Rightarrow> nat" where
  "callsToSolve n numEqs lhs = 6 + 5 * n + numEqs + length lhs + 2"

definition callsMade :: "Env \<Rightarrow> nat \<Rightarrow> nat \<Rightarrow> Term list \<Rightarrow> nat" where
  "callsMade env n numEqs lhs =
     callsToSolve n numEqs lhs +
     (if fst (grb_optimize env (builtModel env n numEqs lhs)) = 2 then 4 * n else 0)"

text \<open>
  Every entry of \<^verbatim>\<open>lhs\<close> is turned into a linear expression: no \<^verbatim>\<open>assert\<close> fails and no
  symbol is looked up outside the vectors of variables.
\<close>

definition linearised :: "Env \<Rightarrow> nat \<Rightarrow> Term list \<Rightarrow> bool" where
  "linearised env n lhs \<longleftrightarrow>
     list_all (\<lambda>row. case toGRBLinExpression env (qubitVars n) row of
                        Normal e \<Rightarrow> True | _ \<Rightarrow> False) lhs"

text \<open>
  A computation \<open>r\<close> that starts when \<open>a\<close> calls have been made makes \<open>c\<close> calls: without an
  exception in these it returns a state that counts \<open>a + c\<close> calls and satisfies \<open>Q\<close>; with
  a first exception among them it throws that exception.
\<close>

definition callStep ::
  "Env \<Rightarrow> nat \<Rightarrow> nat \<Rightarrow> 's outcome \<Rightarrow> ('s \<Rightarrow> nat) \<Rightarrow> ('s \<Rightarrow> bool) \<Rightarrow> bool" where
  "callStep env a c r calls Q \<longleftrightarrow>
     (noFault env a (a + c) \<longrightarrow> (\<exists>s. r = Normal s \<and> calls s = a + c \<and> Q s)) \<and>
     (\<forall>k e. a \<le> k \<and> k < a + c \<and> grb_fault env k = Some e \<and> noFault env a k \<longrightarrow> r = Throw e)"

text \<open>The gate that the read-back loop builds for qubit \<open>i\<close> from the values \<open>a\<close>.\<close>

definition gateOf :: "Env \<Rightarrow> (GRBVar \<Rightarrow> real) \<Rightarrow> nat \<Rightarrow> BinaryCliffordGate" where
  "gateOf env a i =
     \<lparr>gate_axx = gate_entry env (a (4 * i)), gate_axz = gate_entry env (a (4 * i + 1)),
      gate_azx = gate_entry env (a (4 * i + 2)), gate_azz = gate_entry env (a (4 * i + 3))\<rparr>"

text \<open>The handles of the variables that the entry \<open>(i, j)\<close> of \<^verbatim>\<open>lhs\<close> sums.\<close>

definition entryHandles ::
  "Graph \<Rightarrow> nat \<Rightarrow> (nat \<Rightarrow> nat \<Rightarrow> int) \<Rightarrow> (nat \<Rightarrow> nat \<Rightarrow> int) \<Rightarrow> nat \<Rightarrow> nat \<Rightarrow> GRBVar list" where
  "entryHandles graph n R S i j =
     map (\<lambda>k. 4 * k) (filter (\<lambda>k. adjacencyMatrix graph i k \<and> R k j = 1) [0..<n]) @
     map (\<lambda>k. 4 * k + 1) (filter (\<lambda>k. adjacencyMatrix graph i k \<and> S k j = 1) [0..<n]) @
     (if R i j = 1 then [4 * i + 2] else []) @
     (if S i j = 1 then [4 * i + 3] else [])"

text \<open>\<^verbatim>\<open>simplified\<close> leaves these terms as they are (they are simplified already).\<close>

definition simplifiedFixes :: "Env \<Rightarrow> Term list \<Rightarrow> bool" where
  "simplifiedFixes env ts \<longleftrightarrow> list_all (\<lambda>t. simplifiedTerm env t = t) ts"

section \<open>Concrete collaborators for the examples\<close>

text \<open>
  A solver that knows one assignment, the identity gate on qubit 0 and zero everywhere else,
  and reports status 2 (optimal) exactly for the models which that assignment satisfies, and
  status 3 (infeasible) otherwise; no call fails. The conversion to a gate entry truncates,
  as the conversion from \<^verbatim>\<open>double\<close> to an integer does.
\<close>

definition exampleValues :: "GRBVar \<Rightarrow> real" where
  "exampleValues v = (if v = 0 \<or> v = 3 then 1 else 0)"

definition exampleEnv :: Env where
  "exampleEnv =
     \<lparr>grb_fault = (\<lambda>k. None),
      grb_optimize = (\<lambda>m. if satisfies m exampleValues then (2, exampleValues)
                           else (3, exampleValues)),
      asserts_enabled = True,
      simplifiedTerm = (\<lambda>t. t),
      gate_entry = (\<lambda>x. \<lfloor>x\<rfloor>)\<rparr>"


definition emptyGraph :: "nat \<Rightarrow> Graph" where
  "emptyGraph n = \<lparr>numVertices = n, adjacencyMatrix = (\<lambda>i k. False)\<rparr>"

text \<open>
  Eleven qubits without edges; the generators are \<^verbatim>\<open>Pauli::SingleX(11, 10)\<close> and ten
  identities. The solver knows the assignment that has the identity gate on the qubits 0 to 9
  and the gate \<open>axz = azx = 1\<close> on qubit 10, and is sound as the one above.
\<close>

definition elevenValues :: "GRBVar \<Rightarrow> real" where
  "elevenValues v =
     (if v < 40 then (if v mod 4 = 0 \<or> v mod 4 = 3 then 1 else 0)
      else if v = 41 \<or> v = 42 then 1 else 0)"

definition elevenEnv :: Env where
  "elevenEnv =
     exampleEnv\<lparr>grb_optimize := (\<lambda>m. if satisfies m elevenValues then (2, elevenValues)
                                       else (3, elevenValues))\<rparr>"

definition elevenRS :: "Pauli list" where
  "elevenRS = SingleX 11 10 # replicate 10 (Pauli_identity 11)"

section \<open>Properties of the Pauli operator\<close>

subsection \<open>Bits and counts\<close>

lemma Pauli_x_of_bool: "Pauli_x p i = of_bool (bit (pauli_r p) i)"
  unfolding Pauli_x_def by (simp add: and_one_eq bit_iff_odd_drop_bit mod_2_eq_odd)

lemma Pauli_z_of_bool: "Pauli_z p i = of_bool (bit (pauli_s p) i)"
  unfolding Pauli_z_def by (simp add: and_one_eq bit_iff_odd_drop_bit mod_2_eq_odd)

lemma popcount_NOT: "popcount (NOT w) = 64 - popcount w"
proof -
  have "filter (bit (NOT w)) [0..<64] = filter (\<lambda>i. \<not> bit w i) [0..<64]"
    by (rule filter_cong) (auto simp: bit_not_iff)
  moreover have
    "length (filter (bit w) [0..<64]) + length (filter (\<lambda>i. \<not> bit w i) [0..<64]) = 64"
    using sum_length_filter_compl [of "bit w" "[0..<64]"] by simp
  ultimately show ?thesis by (simp add: popcount_def)
qed

text \<open>
  When the set bits of a word are the positions of a string whose character has a property,
  the population count is the number of such characters.
\<close>

lemma popcount_count:
  assumes len: "length cs \<le> 64"
    and bits: "\<And>k. bit w k \<longleftrightarrow> k < length cs \<and> Q (cs ! k)"
  shows "popcount w = int (length (filter Q cs))"
proof -
  have "filter (bit w) [0..<64] = filter (bit w) ([0..<length cs] @ [length cs..<64])"
    using len upt_add_eq_append [of 0 "length cs" "64 - length cs"] by simp
  also have "\<dots> = filter (bit w) [0..<length cs]"
    by (simp add: bits filter_empty_conv)
  also have "\<dots> = filter (\<lambda>k. Q (cs ! k)) [0..<length cs]"
    by (rule filter_cong) (auto simp: bits)
  finally have "length (filter (bit w) [0..<64])
      = length (filter (\<lambda>k. Q (cs ! k)) [0..<length cs])"
    by simp
  also have "\<dots> = length (filter Q (map (\<lambda>k. cs ! k) [0..<length cs]))"
    by (simp add: filter_map comp_def)
  also have "\<dots> = length (filter Q cs)"
    by (simp add: map_nth)
  finally show ?thesis by (simp add: popcount_def)
qed

subsection \<open>Commutator\<close>

lemma commutator_parity:
  "commutator p1 p2 =
     popcount ((pauli_r p1 AND pauli_s p2) XOR (pauli_r p2 AND pauli_s p1)) mod 2"
  by (simp add: commutator_def and_one_eq)

text \<open>
  C9. For Pauli operators \<open>p1\<close> and \<open>p2\<close> of equal length, \<open>commutator p1 p2\<close> equals
  \<open>commutator p2 p1\<close>, and the value is 1 exactly when
  \<open>popcount ((r1 AND s2) XOR (r2 AND s1))\<close> is odd.
\<close>

theorem commutator_symmetric:
  assumes "numQubits p1 = numQubits p2"
  shows "commutator p1 p2 = commutator p2 p1 \<and>
         (commutator p1 p2 = 1 \<longleftrightarrow>
            odd (popcount ((pauli_r p1 AND pauli_s p2) XOR (pauli_r p2 AND pauli_s p1))))"
proof -
  have sym: "(pauli_r p1 AND pauli_s p2) XOR (pauli_r p2 AND pauli_s p1)
           = (pauli_r p2 AND pauli_s p1) XOR (pauli_r p1 AND pauli_s p2)"
    by (simp add: xor.commute)
  have "commutator p1 p2 = commutator p2 p1"
    unfolding commutator_def using sym by simp
  moreover have "commutator p1 p2 = 1 \<longleftrightarrow>
      odd (popcount ((pauli_r p1 AND pauli_s p2) XOR (pauli_r p2 AND pauli_s p1)))"
    unfolding commutator_parity by presburger
  ultimately show ?thesis by blast
qed

theorem commutator_symmetric_witness:
  "numQubits (Pauli_of_string ''XZ'') = numQubits (Pauli_of_string ''ZI'') \<and>
   commutator (Pauli_of_string ''XZ'') (Pauli_of_string ''ZI'') = 1 \<and>
   commutator (Pauli_of_string ''ZI'') (Pauli_of_string ''XZ'') = 1"
proof -
  have len: "numQubits (Pauli_of_string ''XZ'') = numQubits (Pauli_of_string ''ZI'')"
    by code_simp
  have val: "commutator (Pauli_of_string ''XZ'') (Pauli_of_string ''ZI'') = 1"
    by code_simp
  from commutator_symmetric [OF len] val len show ?thesis by simp
qed

subsection \<open>Phase conventions\<close>

text \<open>
  C3, as stated: \<open>getPhase\<close> is \<open>getXZPhase\<close> minus the parity of \<open>popcount (r AND s)\<close>.
  For \<open>YY\<close> the stored phase is 2 and \<open>getPhase\<close> is 0, while the parity is 0.
\<close>

theorem getPhase_parity_counterexample:
  "getPhase (Pauli_of_string ''YY'') \<noteq>
   getXZPhase (Pauli_of_string ''YY'') -
     BinaryPhase_of_int
       (popcount (pauli_r (Pauli_of_string ''YY'') AND pauli_s (Pauli_of_string ''YY'')) mod 2)"
  by code_simp

text \<open>
  C3, amended: \<open>getPhase\<close> is \<open>getXZPhase\<close> minus \<open>popcount (r AND s)\<close> itself, the number
  of Y components, in the additive group mod 4.
\<close>

theorem getPhase_subtracts_popcount:
  "uint (getPhase p) = (uint (getXZPhase p) - popcount (pauli_r p AND pauli_s p)) mod 4"
proof -
  have "uint (pauli_phase p - word_of_int (popcount (pauli_r p AND pauli_s p)))
      = (uint (pauli_phase p)
           - uint (word_of_int (popcount (pauli_r p AND pauli_s p)) :: BinaryPhase)) mod 4"
    by (simp add: uint_word_ariths)
  also have "\<dots> = (uint (pauli_phase p) - popcount (pauli_r p AND pauli_s p)) mod 4"
    by (simp add: uint_word_of_int mod_diff_right_eq)
  finally show ?thesis
    by (simp add: getPhase_def getXZPhase_def getYPhase_def BinaryPhase_of_int_def)
qed

subsection \<open>The bit setters\<close>

text \<open>\<^verbatim>\<open>setX\<close> writes the bit it is given and touches nothing else.\<close>

lemma setX_correct:
  assumes "q < 64" and "v = 0 \<or> v = 1"
  shows "Pauli_x (setX p q v) q = word_of_int v \<and>
         pauli_s (setX p q v) = pauli_s p \<and>
         (\<forall>j. j \<noteq> q \<longrightarrow> Pauli_x (setX p q v) j = Pauli_x p j)"
proof -
  have bq: "bit (pauli_r (setX p q v)) q \<longleftrightarrow> v = 1"
    using assms by (auto simp: setX_def bit_simps)
  have bj: "\<And>j. j \<noteq> q \<Longrightarrow> bit (pauli_r (setX p q v)) j \<longleftrightarrow> bit (pauli_r p) j"
    by (auto simp: setX_def bit_simps)
  have s: "pauli_s (setX p q v) = pauli_s p" by (simp add: setX_def)
  have "Pauli_x (setX p q v) q = word_of_int v"
    using assms(2) by (auto simp: Pauli_x_of_bool bq)
  then show ?thesis using bj s by (simp add: Pauli_x_of_bool)
qed

text \<open>
  \<^verbatim>\<open>setZ\<close> leaves \<^verbatim>\<open>r\<close> and the other bits of \<^verbatim>\<open>s\<close> alone, but the bit it writes is the
  value XOR the X bit XOR the old Z bit: the value itself only where the X and Z bits of that
  position agree.
\<close>

lemma setZ_effect:
  assumes "q < 64" and "v = 0 \<or> v = 1"
  shows "Pauli_z (setZ p q v) q = word_of_int v XOR Pauli_x p q XOR Pauli_z p q \<and>
         pauli_r (setZ p q v) = pauli_r p \<and>
         (\<forall>j. j \<noteq> q \<longrightarrow> Pauli_z (setZ p q v) j = Pauli_z p j)"
proof -
  have bq: "bit (pauli_s (setZ p q v)) q \<longleftrightarrow>
      (v = 1) \<noteq> (bit (pauli_r p) q \<noteq> bit (pauli_s p) q)"
    using assms by (auto simp: setZ_def bit_simps)
  have bj: "\<And>j. j \<noteq> q \<Longrightarrow> bit (pauli_s (setZ p q v)) j \<longleftrightarrow> bit (pauli_s p) j"
    by (auto simp: setZ_def bit_simps)
  have r: "pauli_r (setZ p q v) = pauli_r p" by (simp add: setZ_def)
  have "Pauli_z (setZ p q v) q = word_of_int v XOR Pauli_x p q XOR Pauli_z p q"
    using assms(2) by (cases "bit (pauli_r p) q"; cases "bit (pauli_s p) q")
      (auto simp: Pauli_x_of_bool Pauli_z_of_bool bq)
  then show ?thesis using bj r by (simp add: Pauli_z_of_bool)
qed

text \<open>
  C2 says that after \<open>setZ p q v\<close> the query \<open>z q\<close> returns \<open>v\<close>. On the one-qubit
  operator \<open>X\<close> (length 1, qubit 0) the code returns 1 after writing 0 and 0 after writing 1.
\<close>

theorem setZ_failing_input:
  "numQubits (Pauli_of_string ''X'') = 1 \<and>
   Pauli_z (setZ (Pauli_of_string ''X'') 0 0) 0 = 1 \<and>
   Pauli_z (setZ (Pauli_of_string ''X'') 0 1) 0 = 0"
  by code_simp

subsection \<open>Parsing and printing\<close>

lemma fromStringLoop_n [simp]: "pauli_n (fromStringLoop cs i p) = pauli_n p"
  by (induction cs arbitrary: i p) auto

lemma fromStringLoop_phase [simp]: "pauli_phase (fromStringLoop cs i p) = pauli_phase p"
  by (induction cs arbitrary: i p) auto

text \<open>The loop sets bit \<open>k\<close> of \<^verbatim>\<open>r\<close> exactly for an X or Y at position \<open>k\<close>.\<close>

lemma fromStringLoop_r:
  "bit (pauli_r (fromStringLoop cs i p)) k \<longleftrightarrow>
     bit (pauli_r p) k \<or>
     (k < 64 \<and> i \<le> k \<and> k < i + length cs \<and>
      (cs ! (k - i) = CHR ''X'' \<or> cs ! (k - i) = CHR ''Y''))"
proof (induction cs arbitrary: i p)
  case Nil
  then show ?case by auto
next
  case (Cons c cs)
  show ?case
    apply (simp only: fromStringLoop.simps Cons.IH)
    apply (cases "k = i")
     apply (auto simp: bit_simps nth_Cons' Suc_le_eq)
    done
qed

lemma fromStringLoop_s:
  "bit (pauli_s (fromStringLoop cs i p)) k \<longleftrightarrow>
     bit (pauli_s p) k \<or>
     (k < 64 \<and> i \<le> k \<and> k < i + length cs \<and>
      (cs ! (k - i) = CHR ''Y'' \<or> cs ! (k - i) = CHR ''Z''))"
proof (induction cs arbitrary: i p)
  case Nil
  then show ?case by auto
next
  case (Cons c cs)
  show ?case
    apply (simp only: fromStringLoop.simps Cons.IH)
    apply (cases "k = i")
     apply (auto simp: bit_simps nth_Cons' Suc_le_eq)
    done
qed

lemma toString_length [simp]: "length (toString p) = nat (pauli_n p)"
  by (simp add: toString_def)

lemma toString_nth:
  "i < nat (pauli_n p) \<Longrightarrow> toString p ! i =
     (if bit (pauli_r p) i then (if bit (pauli_s p) i then CHR ''Y'' else CHR ''X'')
      else (if bit (pauli_s p) i then CHR ''Z'' else CHR ''I''))"
proof -
  assume lt: "i < nat (pauli_n p)"
  have sel: "toString p ! i = pauliChars ! unat (Pauli_x p i + Pauli_z p i * 2)"
    using lt unfolding toString_def by (intro trans[OF nth_map]) simp_all
  show ?thesis
    unfolding sel Pauli_x_of_bool Pauli_z_of_bool pauliChars_def
    by (cases "bit (pauli_r p) i"; cases "bit (pauli_s p) i") simp_all
qed

lemma phase_cases: "(ph :: BinaryPhase) = 0 \<or> ph = 1 \<or> ph = 2 \<or> ph = 3"
proof -
  have "unat ph < 4" using unsigned_less [of ph, where 'a = nat] by simp
  then consider "unat ph = 0" | "unat ph = 1" | "unat ph = 2" | "unat ph = 3" by linarith
  then show ?thesis
  proof cases
    case 1 then show ?thesis by (simp add: unat_eq_0)
  next
    case 2
    then have "word_of_nat (unat ph) = (word_of_nat 1 :: BinaryPhase)" by (simp only:)
    then show ?thesis by simp
  next
    case 3
    then have "word_of_nat (unat ph) = (word_of_nat 2 :: BinaryPhase)" by (simp only:)
    then show ?thesis by simp
  next
    case 4
    then have "word_of_nat (unat ph) = (word_of_nat 3 :: BinaryPhase)" by (simp only:)
    then show ?thesis by simp
  qed
qed

text \<open>A marker in front of a string over the alphabet is the prefix the constructor cuts off.\<close>

lemma phasePrefix_marker:
  assumes "body = [] \<or> isPauliChar (hd body)"
  shows "phasePrefix (BinaryPhase_toString ph @ body) = (uint ph, body)"
proof -
  have nb: "take 1 body \<noteq> ''i''" "take 1 body \<noteq> ''-''" "take 2 body \<noteq> ''-i''"
    using assms by (cases body; auto simp: isPauliChar_def)+
  consider "ph = 0" | "ph = 1" | "ph = 2" | "ph = 3" using phase_cases [of ph] by blast
  then show ?thesis
  proof cases
    case 1 then show ?thesis using nb by (simp add: BinaryPhase_toString_def phasePrefix_def)
  next
    case 2 then show ?thesis by (simp add: BinaryPhase_toString_def phasePrefix_def)
  next
    case 3 then show ?thesis using nb by (simp add: BinaryPhase_toString_def phasePrefix_def)
  next
    case 4 then show ?thesis by (simp add: BinaryPhase_toString_def phasePrefix_def)
  qed
qed

lemma toString_chars: "toString p = [] \<or> isPauliChar (hd (toString p))"
proof (cases "nat (pauli_n p) = 0")
  case True
  then show ?thesis by (simp add: toString_def)
next
  case False
  have "hd (toString p) = toString p ! 0"
    using False by (simp add: hd_conv_nth toString_def)
  then show ?thesis using toString_nth [of 0 p] False by (auto simp: isPauliChar_def)
qed

lemma parse_toString_r:
  assumes "wellFormed p"
  shows "pauli_r (fromStringLoop (toString p) 0 (q\<lparr>pauli_r := 0\<rparr>)) = pauli_r p"
proof (rule bit_word_eqI)
  fix k assume "k < LENGTH(64)"
  then have k: "k < 64" by simp
  have wf: "\<not> k < nat (pauli_n p) \<Longrightarrow> \<not> bit (pauli_r p) k"
    using assms k unfolding wellFormed_def by auto
  show "bit (pauli_r (fromStringLoop (toString p) 0 (q\<lparr>pauli_r := 0\<rparr>))) k
      = bit (pauli_r p) k"
  proof (cases "k < nat (pauli_n p)")
    case True
    then show ?thesis using k by (simp add: fromStringLoop_r toString_nth)
  next
    case False
    then show ?thesis using wf by (simp add: fromStringLoop_r)
  qed
qed

lemma parse_toString_s:
  assumes "wellFormed p"
  shows "pauli_s (fromStringLoop (toString p) 0 (q\<lparr>pauli_s := 0\<rparr>)) = pauli_s p"
proof (rule bit_word_eqI)
  fix k assume "k < LENGTH(64)"
  then have k: "k < 64" by simp
  have wf: "\<not> k < nat (pauli_n p) \<Longrightarrow> \<not> bit (pauli_s p) k"
    using assms k unfolding wellFormed_def by auto
  show "bit (pauli_s (fromStringLoop (toString p) 0 (q\<lparr>pauli_s := 0\<rparr>))) k
      = bit (pauli_s p) k"
  proof (cases "k < nat (pauli_n p)")
    case True
    then show ?thesis using k by (simp add: fromStringLoop_s toString_nth)
  next
    case False
    then show ?thesis using wf by (simp add: fromStringLoop_s)
  qed
qed

text \<open>
  C7. For every Pauli operator of length at most 64 whose bit fields name positions of the
  operator only, parsing its printed form (the marker of its phase, when not zero, then
  \<open>toString\<close>) gives back the operator: the same \<^verbatim>\<open>r\<close>, \<^verbatim>\<open>s\<close>, \<^verbatim>\<open>n\<close> and \<^verbatim>\<open>phase\<close>.
\<close>

theorem parse_format_roundtrip:
  assumes wf: "wellFormed p"
  shows "Pauli_of_string (formatPauli p) = p"
proof -
  define ph where "ph = getPhase p"
  define q0 where
    "q0 = (increasePhase Pauli_default (uint ph))\<lparr>pauli_n := int (length (toString p))\<rparr>"
  define p2 where "p2 = fromStringLoop (toString p) 0 q0"
  have fmt: "formatPauli p = BinaryPhase_toString ph @ toString p"
    by (simp add: formatPauli_def ph_def BinaryPhase_toString_def)
  have pre: "phasePrefix (formatPauli p) = (uint ph, toString p)"
    unfolding fmt by (rule phasePrefix_marker) (rule toString_chars)
  have q0r: "q0 = q0\<lparr>pauli_r := 0\<rparr>" and q0s: "q0 = q0\<lparr>pauli_s := 0\<rparr>"
    by (simp_all add: q0_def increasePhase_def Pauli_default_def)
  have r: "pauli_r p2 = pauli_r p"
    unfolding p2_def by (subst q0r) (rule parse_toString_r [OF wf])
  have s: "pauli_s p2 = pauli_s p"
    unfolding p2_def by (subst q0s) (rule parse_toString_s [OF wf])
  have n: "pauli_n p2 = pauli_n p"
    using wf by (simp add: p2_def q0_def wellFormed_def)
  have ph2: "pauli_phase p2 = ph"
    by (simp add: p2_def q0_def increasePhase_def Pauli_default_def BinaryPhase_of_int_def)
  have y: "getYPhase p2 = getYPhase p"
    by (simp add: getYPhase_def r s)
  have "Pauli_of_string (formatPauli p) = p2\<lparr>pauli_phase := pauli_phase p2 + getYPhase p2\<rparr>"
    by (simp add: Pauli_of_string_def pre fromStringOperator_def p2_def q0_def Let_def)
  also have "\<dots> = p"
    by (rule Pauli.equality) (simp_all add: r s n ph2 y ph_def getPhase_def)
  finally show ?thesis .
qed

theorem parse_format_roundtrip_witness:
  "wellFormed \<lparr>pauli_r = 3, pauli_s = 6, pauli_n = 4, pauli_phase = 0\<rparr> \<and>
   formatPauli \<lparr>pauli_r = 3, pauli_s = 6, pauli_n = 4, pauli_phase = 0\<rparr> = ''-iXYZI'' \<and>
   Pauli_of_string ''-iXYZI'' = \<lparr>pauli_r = 3, pauli_s = 6, pauli_n = 4, pauli_phase = 0\<rparr>"
proof -
  have wf: "wellFormed \<lparr>pauli_r = 3, pauli_s = 6, pauli_n = 4, pauli_phase = 0\<rparr>"
    by code_simp
  have fmt: "formatPauli \<lparr>pauli_r = 3, pauli_s = 6, pauli_n = 4, pauli_phase = 0\<rparr> = ''-iXYZI''"
    by code_simp
  from parse_format_roundtrip [OF wf] wf fmt show ?thesis by simp
qed

text \<open>Replacing every character outside the alphabet by \<open>I\<close> changes nothing.\<close>

lemma fromStringLoop_sanitised:
  "fromStringLoop (map (\<lambda>c. if isPauliChar c then c else CHR ''I'') cs) i p =
   fromStringLoop cs i p"
  by (induction cs arbitrary: i p) (simp_all add: isPauliChar_def)

lemma fromStringOperator_sanitised:
  "fromStringOperator q (map (\<lambda>c. if isPauliChar c then c else CHR ''I'') body) =
   fromStringOperator q body"
  by (simp add: fromStringOperator_def fromStringLoop_sanitised)

text \<open>
  C8. Let the constructor cut the phase marker it recognises off the input and call the
  rest the body. The operator it builds has one qubit per character of the body, whatever the
  characters are; its conventional phase is the marker's phase alone; and the body read with
  every character outside \<open>I, X, Y, Z\<close> replaced by \<open>I\<close> gives the same operator. For a
  body of at most 64 characters (the range in which the shifts of the loop are defined), a
  character outside \<open>I, X, Y, Z\<close> leaves the X bit and the Z bit of its position clear, and
  the weight is the number of characters \<open>X\<close>, \<open>Y\<close> and \<open>Z\<close>. The constructor is a total
  function: no input is rejected.
\<close>

theorem Pauli_of_string_tolerant:
  assumes pre: "phasePrefix str = (inc, body)"
  shows "numQubits (Pauli_of_string str) = int (length body) \<and>
    getPhase (Pauli_of_string str) = BinaryPhase_of_int inc \<and>
    (\<forall>q. fromStringOperator q (map (\<lambda>c. if isPauliChar c then c else CHR ''I'') body) =
         fromStringOperator q body) \<and>
    (length body \<le> 64 \<longrightarrow>
      (\<forall>i<length body. \<not> isPauliChar (body ! i) \<longrightarrow>
          Pauli_x (Pauli_of_string str) i = 0 \<and> Pauli_z (Pauli_of_string str) i = 0) \<and>
      pauliWeight (Pauli_of_string str) =
        int (length (filter (\<lambda>c. c = CHR ''X'' \<or> c = CHR ''Y'' \<or> c = CHR ''Z'') body)))"
proof -
  define q0 where "q0 = (increasePhase Pauli_default inc)\<lparr>pauli_n := int (length body)\<rparr>"
  define p2 where "p2 = fromStringLoop body 0 q0"
  have P: "Pauli_of_string str = p2\<lparr>pauli_phase := pauli_phase p2 + getYPhase p2\<rparr>"
    by (simp add: Pauli_of_string_def pre fromStringOperator_def p2_def q0_def Let_def)
  have q0z: "pauli_r q0 = 0" "pauli_s q0 = 0" "pauli_phase q0 = BinaryPhase_of_int inc"
    by (simp_all add: q0_def increasePhase_def Pauli_default_def)
  have n: "numQubits (Pauli_of_string str) = int (length body)"
    by (simp add: P numQubits_def p2_def q0_def)
  have ph: "getPhase (Pauli_of_string str) = BinaryPhase_of_int inc"
    by (simp add: P getPhase_def getYPhase_def p2_def q0z)
  have bits: "(\<forall>i<length body. \<not> isPauliChar (body ! i) \<longrightarrow>
          Pauli_x (Pauli_of_string str) i = 0 \<and> Pauli_z (Pauli_of_string str) i = 0) \<and>
      pauliWeight (Pauli_of_string str) =
        int (length (filter (\<lambda>c. c = CHR ''X'' \<or> c = CHR ''Y'' \<or> c = CHR ''Z'') body))"
    if len: "length body \<le> 64"
  proof -
    have rb: "\<And>k. bit (pauli_r p2) k \<longleftrightarrow>
        k < length body \<and> (body ! k = CHR ''X'' \<or> body ! k = CHR ''Y'')"
      using len by (auto simp: p2_def fromStringLoop_r q0z)
    have sb: "\<And>k. bit (pauli_s p2) k \<longleftrightarrow>
        k < length body \<and> (body ! k = CHR ''Y'' \<or> body ! k = CHR ''Z'')"
      using len by (auto simp: p2_def fromStringLoop_s q0z)
    have inv: "\<forall>i<length body. \<not> isPauliChar (body ! i) \<longrightarrow>
          Pauli_x (Pauli_of_string str) i = 0 \<and> Pauli_z (Pauli_of_string str) i = 0"
      by (simp add: P Pauli_x_of_bool Pauli_z_of_bool rb sb isPauliChar_def)
    have "popcount (pauli_r p2 OR pauli_s p2) =
        int (length (filter (\<lambda>c. c = CHR ''X'' \<or> c = CHR ''Y'' \<or> c = CHR ''Z'') body))"
      by (rule popcount_count [OF len]) (auto simp: bit_simps rb sb)
    then have w: "pauliWeight (Pauli_of_string str) =
        int (length (filter (\<lambda>c. c = CHR ''X'' \<or> c = CHR ''Y'' \<or> c = CHR ''Z'') body))"
      by (simp add: P pauliWeight_def)
    from inv w show ?thesis by blast
  qed
  from n ph bits fromStringOperator_sanitised show ?thesis by blast
qed

theorem Pauli_of_string_tolerant_witness:
  "phasePrefix ''-iXqZ'' = (3, ''XqZ'') \<and> length ''XqZ'' \<le> 64 \<and>
   \<not> isPauliChar (''XqZ'' ! 1) \<and>
   numQubits (Pauli_of_string ''-iXqZ'') = 3 \<and>
   getPhase (Pauli_of_string ''-iXqZ'') = 3 \<and>
   Pauli_x (Pauli_of_string ''-iXqZ'') 1 = 0 \<and> Pauli_z (Pauli_of_string ''-iXqZ'') 1 = 0 \<and>
   pauliWeight (Pauli_of_string ''-iXqZ'') = 2"
proof -
  have pre: "phasePrefix ''-iXqZ'' = (3, ''XqZ'')" by code_simp
  have q: "\<not> isPauliChar (''XqZ'' ! 1)" by code_simp
  from Pauli_of_string_tolerant [OF pre] pre q show ?thesis
    by (simp add: BinaryPhase_of_int_def)
qed

subsection \<open>Identity string and weight\<close>

text \<open>The string constructor sets a bit of \<^verbatim>\<open>r\<close> or \<^verbatim>\<open>s\<close> only at a position it has read.\<close>

lemma Pauli_of_string_bits:
  assumes "bit (pauli_r (Pauli_of_string str)) i \<or> bit (pauli_s (Pauli_of_string str)) i"
  shows "i < nat (numQubits (Pauli_of_string str))"
  using assms
  by (auto simp: Pauli_of_string_def Let_def fromStringOperator_def numQubits_def
        fromStringLoop_r fromStringLoop_s increasePhase_def Pauli_default_def
        split: prod.splits)

text \<open>
  C10, as stated: when \<open>n < 64\<close>, every bit of \<open>getIdentityString\<close> at the positions \<open>n\<close> to
  63 is set. \<^verbatim>\<open>Pauli::SingleX(2, 5)\<close> has length 2 and \<^verbatim>\<open>r = 32\<close>: position 5 lies
  between 2 and 63, and bit 5 of its identity string is clear.
\<close>

theorem getIdentityString_high_bits_counterexample:
  "numQubits (SingleX 2 5) = 2 \<and> numQubits (SingleX 2 5) < 64 \<and>
   5 \<in> set [nat (numQubits (SingleX 2 5))..<64] \<and>
   \<not> bit (getIdentityString (SingleX 2 5)) 5"
  by code_simp

text \<open>
  C10, amended: \<open>getIdentityString\<close> is the complement of \<open>getXString OR getZString\<close> over all
  64 bits, so bit \<open>i\<close> of it is set exactly when \<open>i < 64\<close> and neither \<^verbatim>\<open>r\<close> nor \<^verbatim>\<open>s\<close> has
  bit \<open>i\<close>; for an operator that the string constructor builds from at most 64 operator
  characters this is every position from \<open>n\<close> to 63; the population count is
  \<open>64 - pauliWeight\<close>, which is not \<open>identityCount\<close> when \<open>n < 64\<close>.
\<close>

theorem getIdentityString_complement:
  "getIdentityString p = NOT (getXString p OR getZString p) \<and>
   (\<forall>i. bit (getIdentityString p) i \<longleftrightarrow>
        i < 64 \<and> \<not> bit (getXString p) i \<and> \<not> bit (getZString p) i) \<and>
   (length (snd (phasePrefix str)) \<le> 64 \<longrightarrow>
      (\<forall>i \<in> set [nat (numQubits (Pauli_of_string str))..<64].
         bit (getIdentityString (Pauli_of_string str)) i)) \<and>
   popcount (getIdentityString p) = 64 - pauliWeight p \<and>
   (numQubits p < 64 \<longrightarrow> popcount (getIdentityString p) \<noteq> identityCount p)"
proof -
  have a: "getIdentityString p = NOT (getXString p OR getZString p)"
    by (simp only: getIdentityString_def getXString_def getZString_def)
  have b: "\<forall>i. bit (getIdentityString p) i \<longleftrightarrow>
        i < 64 \<and> \<not> bit (getXString p) i \<and> \<not> bit (getZString p) i"
    unfolding getIdentityString_def getXString_def getZString_def
    by (auto simp: bit_simps)
  have s: "length (snd (phasePrefix str)) \<le> 64 \<longrightarrow>
      (\<forall>i \<in> set [nat (numQubits (Pauli_of_string str))..<64].
         bit (getIdentityString (Pauli_of_string str)) i)"
  proof (intro impI ballI)
    fix i
    assume i: "i \<in> set [nat (numQubits (Pauli_of_string str))..<64]"
    then have "\<not> i < nat (numQubits (Pauli_of_string str))" and "i < 64" by auto
    with Pauli_of_string_bits [of str i]
    show "bit (getIdentityString (Pauli_of_string str)) i"
      unfolding getIdentityString_def by (auto simp: bit_simps)
  qed
  have c: "popcount (getIdentityString p) = 64 - pauliWeight p"
    unfolding getIdentityString_def pauliWeight_def by (rule popcount_NOT)
  have d: "numQubits p < 64 \<longrightarrow> popcount (getIdentityString p) \<noteq> identityCount p"
    unfolding c identityCount_def numQubits_def by simp
  show ?thesis by (intro conjI) (rule a b s c d)+
qed

theorem getIdentityString_complement_witness:
  "length (snd (phasePrefix ''XYZI'')) \<le> 64 \<and>
   numQubits (Pauli_of_string ''XYZI'') = 4 \<and> numQubits (Pauli_of_string ''XYZI'') < 64 \<and>
   bit (getIdentityString (Pauli_of_string ''XYZI'')) 63 \<and>
   bit (getIdentityString (Pauli_of_string ''XYZI'')) 3 \<and>
   \<not> bit (getIdentityString (Pauli_of_string ''XYZI'')) 0 \<and>
   popcount (getIdentityString (Pauli_of_string ''XYZI'')) = 61 \<and>
   identityCount (Pauli_of_string ''XYZI'') = 1"
proof -
  have l: "length (snd (phasePrefix ''XYZI'')) \<le> 64" by code_simp
  have n: "numQubits (Pauli_of_string ''XYZI'') = 4" by code_simp
  have w: "pauliWeight (Pauli_of_string ''XYZI'') = 3" by code_simp
  have ic: "identityCount (Pauli_of_string ''XYZI'') = 1" by code_simp
  have x3: "\<not> bit (getXString (Pauli_of_string ''XYZI'')) 3" by code_simp
  have z3: "\<not> bit (getZString (Pauli_of_string ''XYZI'')) 3" by code_simp
  have x0: "bit (getXString (Pauli_of_string ''XYZI'')) 0" by code_simp
  note inst = getIdentityString_complement [of "Pauli_of_string ''XYZI''" "''XYZI''"]
  from inst l have "\<forall>i \<in> set [nat (numQubits (Pauli_of_string ''XYZI''))..<64].
      bit (getIdentityString (Pauli_of_string ''XYZI'')) i"
    by blast
  then have b: "bit (getIdentityString (Pauli_of_string ''XYZI'')) 63"
    by (simp add: n)
  have b3: "bit (getIdentityString (Pauli_of_string ''XYZI'')) 3"
    using inst [THEN conjunct2, THEN conjunct1] x3 z3 by simp
  have b0: "\<not> bit (getIdentityString (Pauli_of_string ''XYZI'')) 0"
    using inst [THEN conjunct2, THEN conjunct1] x0 by simp
  have c: "popcount (getIdentityString (Pauli_of_string ''XYZI'')) = 61"
    using inst [THEN conjunct2, THEN conjunct2, THEN conjunct2, THEN conjunct1] by (simp add: w)
  from l n b b3 b0 c ic show ?thesis by simp
qed

section \<open>Properties of findHTCircuit\<close>

subsection \<open>Outcomes and loops\<close>

lemma andThen_Normal:
  "andThen m f = Normal y \<longleftrightarrow> (\<exists>x. m = Normal x \<and> f x = Normal y)"
  by (cases m) auto

lemma andThen_Throw:
  "andThen m f = Throw e \<longleftrightarrow> m = Throw e \<or> (\<exists>x. m = Normal x \<and> f x = Throw e)"
  by (cases m) auto

lemma andThen_assoc: "andThen (andThen m f) g = andThen m (\<lambda>x. andThen (f x) g)"
  by (cases m) auto

lemma forEach_append:
  "forEach body (xs @ ys) s = andThen (forEach body xs s) (forEach body ys)"
proof (induction xs arbitrary: s)
  case Nil
  show ?case by simp
next
  case (Cons x xs)
  show ?case by (cases "body x s") (simp_all add: Cons.IH)
qed

lemma forEach_snoc:
  "forEach body (xs @ [x]) s = andThen (forEach body xs s) (body x)"
proof -
  have "forEach body [x] = body x"
  proof
    fix t show "forEach body [x] t = body x t" by (cases "body x t") auto
  qed
  then show ?thesis by (simp add: forEach_append)
qed

lemma grbCall_Normal:
  "grbCall env st = Normal st' \<longleftrightarrow>
     grb_fault env (run_calls st) = None \<and> st' = st\<lparr>run_calls := Suc (run_calls st)\<rparr>"
  by (auto simp: grbCall_def split: option.splits)


lemma addVar_Normal:
  "addVar env lb ub obj ty nm st = Normal (v, st') \<Longrightarrow>
     v = length (m_vars (run_model st)) \<and>
     run_model st' = (run_model st)\<lparr>m_vars := m_vars (run_model st) @
        [\<lparr>var_lb = lb, var_ub = ub, var_obj = obj, var_type = ty, var_name = nm\<rparr>]\<rparr>"
  by (auto simp: addVar_def andThen_Normal grbCall_Normal Let_def)

lemma addQConstr_Normal:
  "addQConstr env q st = Normal st' \<Longrightarrow>
     run_model st' = (run_model st)\<lparr>m_qconstrs := m_qconstrs (run_model st) @ [q]\<rparr>"
  by (auto simp: addQConstr_def andThen_Normal grbCall_Normal Let_def)

lemma addConstr_Normal:
  "addConstr env c st = Normal st' \<Longrightarrow>
     run_model st' = (run_model st)\<lparr>m_constrs := m_constrs (run_model st) @ [c]\<rparr>"
  by (auto simp: addConstr_def andThen_Normal grbCall_Normal Let_def)

lemma vecAt_Normal: "vecAt xs i = Normal x \<longleftrightarrow> i < length xs \<and> x = xs ! i"
  by (auto simp: vecAt_def)

lemma addQubit_Normal:
  assumes run: "addQubit env i (av, st) = Normal (av', st')"
    and len: "length (axxVars av) = i" "length (axzVars av) = i"
             "length (azxVars av) = i" "length (azzVars av) = i"
  shows "av' = \<lparr>axxVars = axxVars av @ [length (m_vars (run_model st))],
               axzVars = axzVars av @ [length (m_vars (run_model st)) + 1],
               azxVars = azxVars av @ [length (m_vars (run_model st)) + 2],
               azzVars = azzVars av @ [length (m_vars (run_model st)) + 3]\<rparr> \<and>
         run_model st' = (run_model st)\<lparr>
           m_vars := m_vars (run_model st) @ qubitDecls i,
           m_qconstrs := m_qconstrs (run_model st) @
             [\<lparr>qc_products = [(length (m_vars (run_model st)), length (m_vars (run_model st)) + 3),
                              (length (m_vars (run_model st)) + 1, length (m_vars (run_model st)) + 2)],
               qc_rhs = 1, qc_name = ''qc'' @ to_string i\<rparr>]\<rparr>"
proof -
  from run obtain v1 s1 v2 s2 v3 s3 v4 s4 where
    a1: "addVar env 0 1 0 GRB_BINARY (''axx'' @ to_string i) st = Normal (v1, s1)" and
    a2: "addVar env 0 1 0 GRB_BINARY (''axz'' @ to_string i) s1 = Normal (v2, s2)" and
    a3: "addVar env 0 1 0 GRB_BINARY (''azx'' @ to_string i) s2 = Normal (v3, s3)" and
    a4: "addVar env 0 1 0 GRB_BINARY (''azz'' @ to_string i) s3 = Normal (v4, s4)" and
    q: "addQConstr env \<lparr>qc_products = [(v1, v4), (v2, v3)], qc_rhs = 1,
                  qc_name = ''qc'' @ to_string i\<rparr> s4 = Normal st'" and
    av': "av' = av\<lparr>axxVars := axxVars av @ [v1], axzVars := axzVars av @ [v2],
                   azxVars := azxVars av @ [v3], azzVars := azzVars av @ [v4]\<rparr>"
    using len
    by (auto simp: addQubit_def andThen_Normal Let_def vecAt_Normal nth_append split: prod.splits)
  note m1 = addVar_Normal [OF a1] and m2 = addVar_Normal [OF a2]
    and m3 = addVar_Normal [OF a3] and m4 = addVar_Normal [OF a4]
    and mq = addQConstr_Normal [OF q]
  show ?thesis
    using m1 m2 m3 m4 mq av'
    by (simp add: qubitDecls_def binaryDecl_def)
qed

subsection \<open>The model that is built\<close>

lemma length_qubitDecls [simp]: "length (concat (map qubitDecls [0..<n])) = 4 * n"
  by (induction n) (simp_all add: qubitDecls_def)

lemma qubitVars_Suc:
  "qubitVars (Suc n) =
     \<lparr>axxVars = axxVars (qubitVars n) @ [4 * n], axzVars = axzVars (qubitVars n) @ [4 * n + 1],
      azxVars = azxVars (qubitVars n) @ [4 * n + 2], azzVars = azzVars (qubitVars n) @ [4 * n + 3]\<rparr>"
  by (simp add: qubitVars_def)

lemma qubitVars_length [simp]:
  "length (axxVars (qubitVars n)) = n" "length (axzVars (qubitVars n)) = n"
  "length (azxVars (qubitVars n)) = n" "length (azzVars (qubitVars n)) = n"
  by (simp_all add: qubitVars_def)

lemma qubitLoop_Normal:
  assumes "forEach (addQubit env) [0..<n] (noVars, st0) = Normal (av, st)"
    and "m_vars (run_model st0) = []"
  shows "av = qubitVars n \<and>
         run_model st = (run_model st0)\<lparr>
           m_vars := concat (map qubitDecls [0..<n]),
           m_qconstrs := m_qconstrs (run_model st0) @ map symplecticConstr [0..<n]\<rparr>"
  using assms
proof (induction n arbitrary: av st)
  case 0
  then show ?case by (simp add: noVars_def qubitVars_def)
next
  case (Suc n)
  from Suc.prems(1) obtain av1 st1 where
    loop: "forEach (addQubit env) [0..<n] (noVars, st0) = Normal (av1, st1)" and
    step: "addQubit env n (av1, st1) = Normal (av, st)"
    by (auto simp: forEach_snoc andThen_Normal)
  from Suc.IH [OF loop Suc.prems(2)] have
    av1: "av1 = qubitVars n" and
    m1: "run_model st1 = (run_model st0)\<lparr>
           m_vars := concat (map qubitDecls [0..<n]),
           m_qconstrs := m_qconstrs (run_model st0) @ map symplecticConstr [0..<n]\<rparr>"
    by blast+
  have len: "length (m_vars (run_model st1)) = 4 * n" by (simp add: m1)
  from addQubit_Normal [OF step [unfolded av1]]
  show ?case
    by (simp add: len qubitVars_Suc m1 symplecticConstr_def)
qed

lemma dummyLoop_Normal:
  assumes "forEach (addDummy env) [0..<k] ([], st0) = Normal (dv, st)"
  shows "dv = map (\<lambda>e. length (m_vars (run_model st0)) + e) [0..<k] \<and>
         run_model st = (run_model st0)\<lparr>
           m_vars := m_vars (run_model st0) @ replicate k dummyDecl\<rparr>"
  using assms
proof (induction k arbitrary: dv st)
  case 0
  then show ?case by simp
next
  case (Suc k)
  from Suc.prems obtain dv1 st1 where
    loop: "forEach (addDummy env) [0..<k] ([], st0) = Normal (dv1, st1)" and
    step: "addDummy env k (dv1, st1) = Normal (dv, st)"
    by (auto simp: forEach_snoc andThen_Normal)
  from Suc.IH [OF loop] have
    dv1: "dv1 = map (\<lambda>e. length (m_vars (run_model st0)) + e) [0..<k]" and
    m1: "run_model st1 = (run_model st0)\<lparr>
           m_vars := m_vars (run_model st0) @ replicate k dummyDecl\<rparr>"
    by blast+
  from step obtain v where
    a: "addVar env (- 1000) 1000 0 GRB_INTEGER '''' st1 = Normal (v, st)" and
    dv: "dv = dv1 @ [v]"
    by (auto simp: addDummy_def andThen_Normal split: prod.splits)
  from addVar_Normal [OF a] show ?case
    by (simp add: dv dv1 m1 dummyDecl_def replicate_append_same)
qed

lemma equationLoop_Normal:
  assumes "forEach (addEquation env av dv) rows (i0, st0) = Normal (i, st)"
  shows "i = i0 + length rows \<and>
         (rows \<noteq> [] \<longrightarrow> i0 + length rows \<le> length dv) \<and>
         (\<forall>row \<in> set rows. \<exists>e. toGRBLinExpression env av row = Normal e) \<and>
         run_model st = (run_model st0)\<lparr>
           m_constrs := m_constrs (run_model st0) @
             map (\<lambda>(k, row). \<lparr>c_lhs = linScale (linOf env av row) 0.5, c_rhs = dv ! k,
                               c_name = ''i'' @ to_string k\<rparr>)
                 (zip [i0..<i0 + length rows] rows)\<rparr>"
  using assms
proof (induction rows arbitrary: i0 st0)
  case Nil
  then show ?case by simp
next
  case (Cons row rows)
  from Cons.prems obtain i1 st1 where
    step: "addEquation env av dv row (i0, st0) = Normal (i1, st1)" and
    rest': "forEach (addEquation env av dv) rows (i1, st1) = Normal (i, st)"
    by (auto simp: andThen_Normal)
  from step obtain e where
    lin: "toGRBLinExpression env av row = Normal e" and
    i0: "i0 < length dv" and
    c: "addConstr env \<lparr>c_lhs = linScale e 0.5, c_rhs = dv ! i0,
                        c_name = ''i'' @ to_string i0\<rparr> st0 = Normal st1" and
    i1: "i1 = Suc i0"
    by (auto simp: addEquation_def andThen_Normal vecAt_Normal)
  from rest' i1 have
    rest: "forEach (addEquation env av dv) rows (Suc i0, st1) = Normal (i, st)"
    by simp
  note IH = Cons.IH [OF rest]
  have e: "linOf env av row = e" by (simp add: linOf_def lin)
  have upt: "[i0..<i0 + length (row # rows)] = i0 # [Suc i0..<Suc i0 + length rows]"
    using upt_conv_Cons [of i0 "i0 + length (row # rows)"] by simp
  from IH i0 lin show ?case
    unfolding upt
    by (cases "rows = []") (auto simp: addConstr_Normal [OF c] e)
qed

lemma startModel_Normal: "startModel env = Normal st \<Longrightarrow> run_model st = emptyModel"
proof -
  have "\<And>s s'. forEach (\<lambda>(_ :: nat). grbCall env) xs s = Normal s' \<Longrightarrow> run_model s' = run_model s"
    for xs
  proof (induction xs)
    case Nil
    then show ?case by simp
  next
    case (Cons x xs)
    then show ?case by (auto simp: andThen_Normal grbCall_Normal)
  qed
  then show "startModel env = Normal st \<Longrightarrow> run_model st = emptyModel"
    unfolding startModel_def by fastforce
qed

lemma buildModel_Normal:
  assumes "buildModel env n numEqs lhs = Normal (av, st)"
  shows "av = qubitVars n \<and> run_model st = builtModel env n numEqs lhs \<and>
         (lhs \<noteq> [] \<longrightarrow> length lhs \<le> numEqs) \<and>
         (\<forall>row \<in> set lhs. \<exists>e. toGRBLinExpression env (qubitVars n) row = Normal e)"
proof -
  from assms obtain s0 s1 dv s2 i where
    start: "startModel env = Normal s0" and
    ql: "forEach (addQubit env) [0..<n] (noVars, s0) = Normal (av, s1)" and
    dl: "forEach (addDummy env) [0..<numEqs] ([], s1) = Normal (dv, s2)" and
    el: "forEach (addEquation env av dv) lhs (0, s2) = Normal (i, st)"
    by (auto simp: buildModel_def andThen_Normal split: prod.splits)
  have m0: "run_model s0 = emptyModel" by (rule startModel_Normal [OF start])
  from qubitLoop_Normal [OF ql] m0 have av: "av = qubitVars n" and
    m1: "run_model s1 = emptyModel\<lparr>m_vars := concat (map qubitDecls [0..<n]),
           m_qconstrs := map symplecticConstr [0..<n]\<rparr>"
    by (simp_all add: emptyModel_def)
  from dummyLoop_Normal [OF dl] have
    dv: "dv = map (\<lambda>e. 4 * n + e) [0..<numEqs]" and
    m2: "run_model s2 = (run_model s1)\<lparr>
           m_vars := m_vars (run_model s1) @ replicate numEqs dummyDecl\<rparr>"
    by (simp_all add: m1)
  note E = equationLoop_Normal [OF el]
  have len: "lhs \<noteq> [] \<longrightarrow> length lhs \<le> numEqs" using E by (simp add: dv)
  have cs: "map (\<lambda>(k, row). \<lparr>c_lhs = linScale (linOf env av row) 0.5, c_rhs = dv ! k,
                               c_name = ''i'' @ to_string k\<rparr>) (zip [0..<length lhs] lhs)
          = map (\<lambda>(i, row). halfConstr env n i row) (zip [0..<length lhs] lhs)"
  proof (rule map_cong [OF refl])
    fix x assume mem: "x \<in> set (zip [0..<length lhs] lhs)"
    obtain k row where x: "x = (k, row)" by (cases x)
    from mem have "k \<in> set [0..<length lhs]" unfolding x by (rule set_zip_leftD)
    then have "fst x < length lhs" by (simp add: x)
    moreover from this len have "fst x < numEqs" by (cases "lhs = []") auto
    ultimately show "(case x of (k, row) \<Rightarrow> \<lparr>c_lhs = linScale (linOf env av row) 0.5,
        c_rhs = dv ! k, c_name = ''i'' @ to_string k\<rparr>)
        = (case x of (i, row) \<Rightarrow> halfConstr env n i row)"
      by (cases x) (simp add: halfConstr_def dv av)
  qed
  have "run_model st = builtModel env n numEqs lhs"
    using E cs by (simp add: m2 m1 builtModel_def emptyModel_def)
  with av len E show ?thesis by (simp add: av)
qed

subsection \<open>Reading the solution back\<close>

lemma optimizeModel_Normal:
  "optimizeModel env st = Normal (status, st') \<Longrightarrow>
     status = fst (grb_optimize env (run_model st)) \<and> run_model st' = run_model st"
  by (auto simp: optimizeModel_def andThen_Normal grbCall_Normal)

lemma getX_Normal:
  "getX env vec i st = Normal (x, st') \<Longrightarrow>
     i < length vec \<and> x = snd (grb_optimize env (run_model st)) (vec ! i) \<and>
     run_model st' = run_model st"
  by (auto simp: getX_def andThen_Normal grbCall_Normal vecAt_Normal)

lemma readGate_Normal:
  assumes "readGate env (qubitVars n) i (layer, st) = Normal (layer', st')"
  shows "i < n \<and> layer' = layer @ [gateOf env (snd (grb_optimize env (run_model st))) i] \<and>
         run_model st' = run_model st"
proof -
  from assms obtain xx s1 xz s2 zx s3 zz where
    g1: "getX env (axxVars (qubitVars n)) i st = Normal (xx, s1)" and
    g2: "getX env (axzVars (qubitVars n)) i s1 = Normal (xz, s2)" and
    g3: "getX env (azxVars (qubitVars n)) i s2 = Normal (zx, s3)" and
    g4: "getX env (azzVars (qubitVars n)) i s3 = Normal (zz, st')" and
    l: "layer' = layer @ [\<lparr>gate_axx = gate_entry env xx, gate_axz = gate_entry env xz,
                  gate_azx = gate_entry env zx, gate_azz = gate_entry env zz\<rparr>]"
    by (auto simp: readGate_def andThen_Normal split: prod.splits)
  note n1 = getX_Normal [OF g1] and n2 = getX_Normal [OF g2]
    and n3 = getX_Normal [OF g3] and n4 = getX_Normal [OF g4]
  from n1 have i: "i < n" by simp
  show ?thesis
    using n1 n2 n3 n4 i by (simp add: l gateOf_def qubitVars_def)
qed

lemma readLoop_Normal:
  assumes "forEach (readGate env (qubitVars n)) [0..<k] ([], st0) = Normal (layer, st)"
  shows "layer = map (gateOf env (snd (grb_optimize env (run_model st0)))) [0..<k] \<and>
         run_model st = run_model st0"
  using assms
proof (induction k arbitrary: layer st)
  case 0
  then show ?case by simp
next
  case (Suc k)
  from Suc.prems obtain l1 s1 where
    loop: "forEach (readGate env (qubitVars n)) [0..<k] ([], st0) = Normal (l1, s1)" and
    step: "readGate env (qubitVars n) k (l1, s1) = Normal (layer, st)"
    by (auto simp: forEach_snoc andThen_Normal)
  from Suc.IH [OF loop] readGate_Normal [OF step] show ?case by simp
qed

lemma tryBlock_Some:
  assumes "tryBlock env n numEqs lhs = Normal (Some gates)"
  shows "fst (grb_optimize env (builtModel env n numEqs lhs)) = 2 \<and>
         gates = map (gateOf env (snd (grb_optimize env (builtModel env n numEqs lhs)))) [0..<n] \<and>
         (lhs \<noteq> [] \<longrightarrow> length lhs \<le> numEqs) \<and>
         (\<forall>row \<in> set lhs. \<exists>e. toGRBLinExpression env (qubitVars n) row = Normal e)"
proof -
  from assms obtain av st status s1 layer s2 where
    b: "buildModel env n numEqs lhs = Normal (av, st)" and
    opt: "optimizeModel env st = Normal (status, s1)" and
    status: "status = 2" and
    rd: "forEach (readGate env av) [0..<n] ([], s1) = Normal (layer, s2)" and
    g: "gates = layer"
    by (auto simp: tryBlock_def andThen_Normal split: prod.splits if_splits)
  note B = buildModel_Normal [OF b]
  note O = optimizeModel_Normal [OF opt]
  from B have av: "av = qubitVars n" by simp
  note R = readLoop_Normal [OF rd [unfolded av]]
  from B O R status g show ?thesis by simp
qed

lemma binary_symplectic:
  fixes xx xz zx zz :: real
  assumes "xx = 0 \<or> xx = 1" "xz = 0 \<or> xz = 1" "zx = 0 \<or> zx = 1" "zz = 0 \<or> zz = 1"
    and "xx * zz + xz * zx = 1"
    and "f 0 = (0::int)" "f 1 = 1"
  shows "(f xx * f zz + f xz * f zx) mod 2 = 1"
  using assms by auto

lemma satisfies_qubit:
  assumes sat: "satisfies (builtModel env n numEqs lhs) a" and i: "i < n"
  shows "(a (4 * i) = 0 \<or> a (4 * i) = 1) \<and> (a (4 * i + 1) = 0 \<or> a (4 * i + 1) = 1) \<and>
         (a (4 * i + 2) = 0 \<or> a (4 * i + 2) = 1) \<and> (a (4 * i + 3) = 0 \<or> a (4 * i + 3) = 1) \<and>
         a (4 * i) * a (4 * i + 3) + a (4 * i + 1) * a (4 * i + 2) = 1"
proof -
  have vars: "\<And>v. v < 4 * n \<Longrightarrow> var_type (m_vars (builtModel env n numEqs lhs) ! v) = GRB_BINARY"
  proof -
    fix v assume v: "v < 4 * n"
    have "concat (map qubitDecls [0..<n]) ! v \<in> set (concat (map qubitDecls [0..<n]))"
      using v by (intro nth_mem) simp
    then have "var_type (concat (map qubitDecls [0..<n]) ! v) = GRB_BINARY"
      by (auto simp: qubitDecls_def binaryDecl_def)
    then show "var_type (m_vars (builtModel env n numEqs lhs) ! v) = GRB_BINARY"
      using v by (simp add: builtModel_def nth_append)
  qed
  have adm: "\<And>v. v < 4 * n \<Longrightarrow> a v = 0 \<or> a v = 1"
  proof -
    fix v assume v: "v < 4 * n"
    have "v < length (m_vars (builtModel env n numEqs lhs))" using v by (simp add: builtModel_def)
    with sat have "varAdmits (m_vars (builtModel env n numEqs lhs) ! v) (a v)"
      by (simp add: satisfies_def list_all_iff)
    then show "a v = 0 \<or> a v = 1" using vars [OF v] by (simp add: varAdmits_def)
  qed
  have "symplecticConstr i \<in> set (m_qconstrs (builtModel env n numEqs lhs))"
    using i by (simp add: builtModel_def)
  with sat have "qconstrHolds a (symplecticConstr i)"
    by (simp add: satisfies_def list_all_iff)
  then have q: "a (4 * i) * a (4 * i + 3) + a (4 * i + 1) * a (4 * i + 2) = 1"
    by (simp add: qconstrHolds_def symplecticConstr_def)
  from adm [of "4 * i"] adm [of "4 * i + 1"] adm [of "4 * i + 2"] adm [of "4 * i + 3"] q i
  show ?thesis by simp
qed

lemma tryCatch_Some:
  "tryCatch env n numEqs lhs = Returned msgs (Some gates) \<longleftrightarrow>
     tryBlock env n numEqs lhs = Normal (Some gates) \<and> msgs = []"
  by (auto simp: tryCatch_def split: outcome.splits)

lemma tryCatch_symplectic:
  assumes sound: "soundSolver env" and entry: "gate_entry env 0 = 0" "gate_entry env 1 = 1"
    and ret: "tryCatch env n numEqs lhs = Returned msgs (Some gates)"
  shows "list_all symplectic gates"
proof -
  define a where "a = snd (grb_optimize env (builtModel env n numEqs lhs))"
  from ret have tb: "tryBlock env n numEqs lhs = Normal (Some gates)"
    by (simp add: tryCatch_Some)
  note T = tryBlock_Some [OF tb]
  from T sound have sat: "satisfies (builtModel env n numEqs lhs) a"
    by (simp add: soundSolver_def a_def)
  have "symplectic (gateOf env a i)" if "i < n" for i
  proof -
    note Q = satisfies_qubit [OF sat that]
    have "(gate_entry env (a (4 * i)) * gate_entry env (a (4 * i + 3)) +
           gate_entry env (a (4 * i + 1)) * gate_entry env (a (4 * i + 2))) mod 2 = 1"
      by (rule binary_symplectic [where f = "gate_entry env"]) (use Q entry in blast)+
    then show ?thesis by (simp add: symplectic_def gateOf_def)
  qed
  then show ?thesis using T by (simp add: list_all_iff a_def)
qed

subsection \<open>Evaluating concrete runs\<close>

lemma exampleEnv_simps:
  "grb_fault exampleEnv k = None"
  "grb_optimize exampleEnv m =
     (if satisfies m exampleValues then (2, exampleValues) else (3, exampleValues))"
  "asserts_enabled exampleEnv = True"
  "simplifiedTerm exampleEnv t = t"
  "gate_entry exampleEnv x = \<lfloor>x\<rfloor>"
  by (simp_all add: exampleEnv_def)



lemmas run_defs =
  tryCatch_def tryBlock_def buildModel_def startModel_def addQubit_def addVar_def
  addQConstr_def addConstr_def grbCall_def noVars_def vecAt_def emptyModel_def addDummy_def
  addEquation_def toGRBLinExpression_def getVar_def charAt_def charToInt_def
  optimizeModel_def readGate_def getX_def Let_def linZero_def linAddVar_def linScale_def
  upt_conv_Cons

lemmas sat_defs =
  satisfies_def varAdmits_def qconstrHolds_def constrHolds_def evalLin_def exampleValues_def

lemma soundSolver_exampleEnv: "soundSolver exampleEnv"
  by (simp add: soundSolver_def exampleEnv_simps)

lemma char_of_digits:
  "char_of (48 :: nat) = CHR ''0''" "char_of (49 :: nat) = CHR ''1''"
  "char_of (57 :: nat) = CHR ''9''"
  by code_simp+

lemma RS_X: "matrixR [Pauli_of_string ''X''] 0 0 = 1" "matrixS [Pauli_of_string ''X''] 0 0 = 0"
  by (simp_all add: matrixR_def matrixS_def Pauli_x_def Pauli_z_def Pauli_of_string_def phasePrefix_def
     fromStringOperator_def increasePhase_def Pauli_default_def Let_def)

lemma lhs_X: "lhsMatrix (emptyGraph 1) 1 1 (matrixR [Pauli_of_string ''X'']) (matrixS [Pauli_of_string ''X''])
  = [\<lparr>t_numbers = [], t_variables = [Variable ''azx0''], t_products = []\<rparr>]"
  by (simp add: lhsMatrix_def lhsEntry_def RS_X emptyGraph_def generateSymbol_def to_string.simps
      char_of_digits)

lemma RS_XZ:
  "matrixR [Pauli_of_string ''X'', Pauli_of_string ''Z''] 0 0 = 1"
  "matrixS [Pauli_of_string ''X'', Pauli_of_string ''Z''] 0 0 = 0"
  "matrixR [Pauli_of_string ''X'', Pauli_of_string ''Z''] 0 (Suc 0) = 0"
  "matrixS [Pauli_of_string ''X'', Pauli_of_string ''Z''] 0 (Suc 0) = 1"
  by (simp_all add: matrixR_def matrixS_def Pauli_x_def Pauli_z_def Pauli_of_string_def
      phasePrefix_def fromStringOperator_def increasePhase_def Pauli_default_def Let_def)

lemma lhs_XZ_fixed:
  "lhsMatrix (emptyGraph 1) 1 1 (matrixR [Pauli_of_string ''X'', Pauli_of_string ''Z''])
     (matrixS [Pauli_of_string ''X'', Pauli_of_string ''Z'']) =
   [\<lparr>t_numbers = [], t_variables = [Variable ''azx0''], t_products = []\<rparr>]"
  by (simp add: lhsMatrix_def lhsEntry_def RS_XZ emptyGraph_def generateSymbol_def
      to_string.simps char_of_digits)

lemma lhs_XZ:
  "lhsMatrix (emptyGraph 1) 1 2 (matrixR [Pauli_of_string ''X'', Pauli_of_string ''Z''])
     (matrixS [Pauli_of_string ''X'', Pauli_of_string ''Z'']) =
   [\<lparr>t_numbers = [], t_variables = [Variable ''azx0''], t_products = []\<rparr>,
    \<lparr>t_numbers = [], t_variables = [Variable ''azz0''], t_products = []\<rparr>]"
  by (simp add: lhsMatrix_def lhsEntry_def RS_XZ emptyGraph_def generateSymbol_def
      to_string.simps char_of_digits upt_conv_Cons)

lemma linOf_single:
  "linOf exampleEnv (qubitVars 1)
     \<lparr>t_numbers = [], t_variables = [Variable ''azx0''], t_products = []\<rparr> =
   \<lparr>lin_const = 0, lin_terms = [(1, 2)]\<rparr>"
  "linOf exampleEnv (qubitVars 1)
     \<lparr>t_numbers = [], t_variables = [Variable ''azz0''], t_products = []\<rparr> =
   \<lparr>lin_const = 0, lin_terms = [(1, 3)]\<rparr>"
  by (simp_all add: linOf_def toGRBLinExpression_def getVar_def charAt_def charToInt_def
      vecAt_def qubitVars_def exampleEnv_simps Let_def linZero_def linAddVar_def)

lemma run_X: "findHTCircuit exampleEnv (emptyGraph 1) [Pauli_of_string ''X''] =
   Returned [] (Some [\<lparr>gate_axx = 1, gate_axz = 0, gate_azx = 0, gate_azz = 1\<rparr>])"
proof -
  have "findHTCircuit exampleEnv (emptyGraph 1) [Pauli_of_string ''X'']
      = tryCatch exampleEnv 1 1 (lhsMatrix (emptyGraph 1) 1 1
          (matrixR [Pauli_of_string ''X'']) (matrixS [Pauli_of_string ''X'']))"
    by (simp add: findHTCircuit_def generatorsReadable_def emptyGraph_def)
  also have "\<dots> = tryCatch exampleEnv 1 1
      [\<lparr>t_numbers = [], t_variables = [Variable ''azx0''], t_products = []\<rparr>]"
    by (simp only: lhs_X)
  also have "\<dots> = Returned [] (Some [\<lparr>gate_axx = 1, gate_axz = 0, gate_azx = 0, gate_azz = 1\<rparr>])"
    by (simp add: run_defs exampleEnv_simps sat_defs)
  finally show ?thesis .
qed

subsection \<open>Symplectic validity\<close>

lemma findHTCircuit_fixed_Returned:
  "findHTCircuit_fixed env n graph RS = Returned msgs r \<Longrightarrow>
     tryCatch env n (n * n) (lhsMatrix graph n n (matrixR RS) (matrixS RS)) = Returned msgs r"
  by (simp add: findHTCircuit_fixed_def Let_def split: if_splits)

lemma findHTCircuit_Returned:
  "findHTCircuit env graph RS = Returned msgs r \<Longrightarrow>
     tryCatch env (numVertices graph) (numVertices graph * length RS)
       (lhsMatrix graph (numVertices graph) (length RS) (matrixR RS) (matrixS RS)) = Returned msgs r"
  by (simp add: findHTCircuit_def Let_def split: if_splits)

text \<open>
  C1. Under the hypothesis that the values the solver reports with status 2 satisfy every
  declaration and constraint of the model (and that the conversion to a gate entry maps the
  values 0 and 1 to the bits 0 and 1), every gate descriptor in a sequence returned by either
  overload satisfies \<open>axx * azz + axz * azx = 1 (mod 2)\<close>.
\<close>

theorem findHTCircuit_symplectic:
  assumes sound: "soundSolver env"
    and entry: "gate_entry env 0 = 0" "gate_entry env 1 = 1"
    and ret: "findHTCircuit_fixed env n graph RS = Returned msgs (Some gates) \<or>
              findHTCircuit env graph RS = Returned msgs (Some gates)"
  shows "\<forall>g \<in> set gates. symplectic g"
proof -
  from ret have "list_all symplectic gates"
  proof
    assume "findHTCircuit_fixed env n graph RS = Returned msgs (Some gates)"
    from tryCatch_symplectic [OF sound entry findHTCircuit_fixed_Returned [OF this]]
    show ?thesis .
  next
    assume "findHTCircuit env graph RS = Returned msgs (Some gates)"
    from tryCatch_symplectic [OF sound entry findHTCircuit_Returned [OF this]]
    show ?thesis .
  qed
  then show ?thesis by (simp add: list_all_iff)
qed

theorem findHTCircuit_symplectic_witness:
  "soundSolver exampleEnv \<and> gate_entry exampleEnv 0 = 0 \<and> gate_entry exampleEnv 1 = 1 \<and>
   findHTCircuit exampleEnv (emptyGraph 1) [Pauli_of_string ''X''] =
     Returned [] (Some [\<lparr>gate_axx = 1, gate_axz = 0, gate_azx = 0, gate_azz = 1\<rparr>]) \<and>
   symplectic \<lparr>gate_axx = 1, gate_axz = 0, gate_azx = 0, gate_azz = 1\<rparr>"
proof -
  have e: "gate_entry exampleEnv 0 = 0" "gate_entry exampleEnv 1 = 1"
    by (simp_all add: exampleEnv_simps)
  from findHTCircuit_symplectic [OF soundSolver_exampleEnv e disjI2 [OF run_X]]
  show ?thesis using soundSolver_exampleEnv e run_X by simp
qed

subsection \<open>Where exceptions come from\<close>

text \<open>Inside the try block only a call into the solver library throws.\<close>

lemma forEach_Throw:
  "forEach body xs s = Throw e \<Longrightarrow> \<exists>x s'. body x s' = Throw e"
proof (induction xs arbitrary: s)
  case Nil
  then show ?case by simp
next
  case (Cons x xs)
  then show ?case by (auto simp: andThen_Throw)
qed

lemma vecAt_no_Throw [simp]: "vecAt xs i \<noteq> Throw e"
  by (simp add: vecAt_def)

lemma charAt_no_Throw [simp]: "charAt s k \<noteq> Throw e"
  by (simp add: charAt_def)

lemma getVar_no_Throw [simp]: "getVar av t \<noteq> Throw e"
  by (auto simp: getVar_def andThen_Throw Let_def)

lemma toGRBLinExpression_no_Throw [simp]: "toGRBLinExpression env av t \<noteq> Throw e"
proof
  assume "toGRBLinExpression env av t = Throw e"
  then consider
    "\<exists>l. forEach (\<lambda>c e. andThen (getVar av c) (\<lambda>v. Normal (linAddVar e v)))
        (t_variables (simplifiedTerm env t)) l = Throw e"
    | "\<exists>l. forEach (\<lambda>c e. if asserts_enabled env \<and> p_sums c \<noteq> [] then Abort
                else let p = foldl (\<lambda>p d. linScale p (Re d)) linZero (p_numbers c)
                     in Normal (linAdd e p)) (t_products (simplifiedTerm env t)) l = Throw e"
    by (auto simp: toGRBLinExpression_def Let_def andThen_Throw split: if_splits)
  then show False
  proof cases
    case 1
    then show False by (auto dest!: forEach_Throw simp: andThen_Throw)
  next
    case 2
    then show False by (auto dest!: forEach_Throw simp: Let_def split: if_splits)
  qed
qed















subsection \<open>Counting the calls into the library\<close>

text \<open>
  Every step of the try block makes a fixed number of calls into the library; the first call
  that raises an exception ends the block with that exception.
\<close>

lemma noFault_iff: "noFault env a b \<longleftrightarrow> (\<forall>k. a \<le> k \<and> k < b \<longrightarrow> grb_fault env k = None)"
  by (auto simp: noFault_def list_all_iff)

lemma noFault_split:
  "a \<le> b \<Longrightarrow> b \<le> c \<Longrightarrow> noFault env a c \<longleftrightarrow> noFault env a b \<and> noFault env b c"
  unfolding noFault_iff by (meson le_trans less_le_trans not_le)

lemma callStep_pure: "Q s \<Longrightarrow> calls s = a \<Longrightarrow> callStep env a 0 (Normal s) calls Q"
  by (simp add: callStep_def)

lemma callStep_weaken:
  "callStep env a c r calls Q \<Longrightarrow> (\<And>s. Q s \<Longrightarrow> Q' s) \<Longrightarrow> callStep env a c r calls Q'"
  unfolding callStep_def by blast

lemma callStep_andThen:
  assumes m: "callStep env a c1 m calls1 Q1"
    and f: "\<And>s. m = Normal s \<Longrightarrow> calls1 s = a + c1 \<Longrightarrow> Q1 s \<Longrightarrow>
              callStep env (a + c1) c2 (f s) calls2 Q2"
  shows "callStep env a (c1 + c2) (andThen m f) calls2 Q2"
  unfolding callStep_def
proof (intro conjI impI allI)
  assume nf: "noFault env a (a + (c1 + c2))"
  then have nf1: "noFault env a (a + c1)" and nf2: "noFault env (a + c1) (a + c1 + c2)"
    using noFault_split [of a "a + c1" "a + (c1 + c2)" env] by (simp_all add: add.assoc)
  from m nf1 obtain s where s: "m = Normal s" "calls1 s = a + c1" "Q1 s"
    unfolding callStep_def by blast
  from f [OF s] nf2 obtain s' where "f s = Normal s'" "calls2 s' = a + c1 + c2" "Q2 s'"
    unfolding callStep_def by blast
  then show "\<exists>s'. andThen m f = Normal s' \<and> calls2 s' = a + (c1 + c2) \<and> Q2 s'"
    by (simp add: s add.assoc)
next
  fix k e
  assume h: "a \<le> k \<and> k < a + (c1 + c2) \<and> grb_fault env k = Some e \<and> noFault env a k"
  show "andThen m f = Throw e"
  proof (cases "k < a + c1")
    case True
    with m h have "m = Throw e" unfolding callStep_def by blast
    then show ?thesis by simp
  next
    case False
    then have le: "a + c1 \<le> k" by simp
    from h have "noFault env a k" by simp
    then have nf1: "noFault env a (a + c1)" and nf2: "noFault env (a + c1) k"
      using noFault_split [of a "a + c1" k env] le by simp_all
    from m nf1 obtain s where s: "m = Normal s" "calls1 s = a + c1" "Q1 s"
      unfolding callStep_def by blast
    from h have k: "k < a + c1 + c2" and ke: "grb_fault env k = Some e" by simp_all
    from f [OF s] have "\<forall>k e. a + c1 \<le> k \<and> k < a + c1 + c2 \<and> grb_fault env k = Some e \<and>
        noFault env (a + c1) k \<longrightarrow> f s = Throw e"
      unfolding callStep_def by (rule conjunct2)
    with le k ke nf2 have "f s = Throw e" by blast
    then show ?thesis by (simp add: s)
  qed
qed

lemma forEach_calls:
  assumes step: "\<And>j s. j < length xs \<Longrightarrow> I j s \<Longrightarrow> calls s = a + c * j \<Longrightarrow>
       callStep env (a + c * j) c (body (xs ! j) s) calls (I (Suc j))"
    and init: "I 0 s0" "calls s0 = a"
  shows "callStep env a (c * length xs) (forEach body xs s0) calls (I (length xs))"
  using step
proof (induction xs rule: rev_induct)
  case Nil
  show ?case using init by (simp add: callStep_pure)
next
  case (snoc x xs)
  have IH: "callStep env a (c * length xs) (forEach body xs s0) calls (I (length xs))"
  proof (rule snoc.IH)
    fix j s assume j: "j < length xs" and "I j s" "calls s = a + c * j"
    with snoc.prems [of j s] show "callStep env (a + c * j) c (body (xs ! j) s) calls (I (Suc j))"
      by (simp add: nth_append)
  qed
  have last: "callStep env (a + c * length xs) c (body x s) calls (I (Suc (length xs)))"
    if "I (length xs) s" "calls s = a + c * length xs" for s
    using snoc.prems [of "length xs" s] that by simp
  have "callStep env a (c * length xs + c) (andThen (forEach body xs s0) (body x)) calls
          (I (Suc (length xs)))"
    by (rule callStep_andThen [OF IH]) (rule last, assumption+)
  then show ?case by (simp add: forEach_snoc add.commute)
qed

lemma callStep_grbCall:
  "callStep env (run_calls st) 1 (grbCall env st) run_calls (\<lambda>s. run_model s = run_model st)"
  unfolding callStep_def noFault_iff grbCall_def
  by (auto split: option.splits simp: less_Suc_eq_le)

lemma window_facts:
  assumes "a \<le> k \<and> k < a + c \<and> grb_fault env k = Some e \<and> noFault env a k"
  shows "\<exists>d<c. k = a + d \<and> grb_fault env (a + d) = Some e \<and>
           (\<forall>j<d. grb_fault env (a + j) = None)"
proof -
  from assms have "a \<le> k" "k < a + c" by simp_all
  then have "k - a < c" "k = a + (k - a)" by arith+
  moreover from assms have "\<forall>j<k - a. grb_fault env (a + j) = None"
    unfolding noFault_iff by auto
  ultimately show ?thesis using assms by (intro exI [of _ "k - a"]) auto
qed

lemma callStep_I:
  assumes "(\<forall>j<c. grb_fault env (a + j) = None) \<Longrightarrow> \<exists>s. r = Normal s \<and> calls s = a + c \<and> Q s"
    and "\<And>d e. d < c \<Longrightarrow> grb_fault env (a + d) = Some e \<Longrightarrow>
           (\<forall>j<d. grb_fault env (a + j) = None) \<Longrightarrow> r = Throw e"
  shows "callStep env a c r calls Q"
  unfolding callStep_def
proof (intro conjI impI allI)
  assume "noFault env a (a + c)"
  then have "\<forall>j<c. grb_fault env (a + j) = None" unfolding noFault_iff by simp
  then show "\<exists>s. r = Normal s \<and> calls s = a + c \<and> Q s" by (rule assms(1))
next
  fix k e
  assume "a \<le> k \<and> k < a + c \<and> grb_fault env k = Some e \<and> noFault env a k"
  from window_facts [OF this] show "r = Throw e" using assms(2) by blast
qed

lemma callStep_addVar:
  "callStep env (run_calls st) 1 (addVar env lb ub obj ty nm st) (run_calls \<circ> snd) (\<lambda>s. True)"
  by (rule callStep_I) (simp_all add: addVar_def grbCall_def Let_def)

lemma callStep_addDummy:
  "callStep env (run_calls st) 1 (addDummy env i (dv, st)) (run_calls \<circ> snd) (\<lambda>s. True)"
  by (rule callStep_I) (simp_all add: addDummy_def addVar_def grbCall_def Let_def)

lemma callStep_addEquation:
  assumes "toGRBLinExpression env av row = Normal l" and "i < length dv"
  shows "callStep env (run_calls st) 1 (addEquation env av dv row (i, st)) (run_calls \<circ> snd)
           (\<lambda>s. fst s = Suc i)"
  using assms
  by (intro callStep_I) (simp_all add: addEquation_def addConstr_def grbCall_def Let_def vecAt_def)

lemma callStep_optimizeModel:
  "callStep env (run_calls st) 2 (optimizeModel env st) (run_calls \<circ> snd)
     (\<lambda>s. fst s = fst (grb_optimize env (run_model st)) \<and> run_model (snd s) = run_model st)"
proof (rule callStep_I)
  assume "\<forall>j<2. grb_fault env (run_calls st + j) = None"
  then have "grb_fault env (run_calls st) = None" "grb_fault env (Suc (run_calls st)) = None"
    using less_2_cases_iff by (auto simp: numeral_2_eq_2 less_Suc_eq)
  then show "\<exists>s. optimizeModel env st = Normal s \<and> (run_calls \<circ> snd) s = run_calls st + 2 \<and>
     fst s = fst (grb_optimize env (run_model st)) \<and> run_model (snd s) = run_model st"
    by (simp add: optimizeModel_def grbCall_def)
next
  fix d e
  assume d: "d < 2" and e: "grb_fault env (run_calls st + d) = Some e"
    and n: "\<forall>j<d. grb_fault env (run_calls st + j) = None"
  from d consider "d = 0" | "d = 1" by arith
  then show "optimizeModel env st = Throw e"
  proof cases
    case 1
    with e show ?thesis by (simp add: optimizeModel_def grbCall_def)
  next
    case 2
    with n have "grb_fault env (run_calls st) = None" by auto
    with e 2 show ?thesis by (simp add: optimizeModel_def grbCall_def)
  qed
qed

lemma callStep_addQubit:
  assumes len: "length (axxVars av) = i" "length (axzVars av) = i"
               "length (azxVars av) = i" "length (azzVars av) = i"
  shows "callStep env (run_calls st) 5 (addQubit env i (av, st)) (run_calls \<circ> snd)
           (\<lambda>s. length (axxVars (fst s)) = Suc i \<and> length (axzVars (fst s)) = Suc i \<and>
                length (azxVars (fst s)) = Suc i \<and> length (azzVars (fst s)) = Suc i)"
proof (rule callStep_I)
  let ?a = "run_calls st"
  assume nf: "\<forall>j<5. grb_fault env (?a + j) = None"
  have f: "grb_fault env ?a = None" "grb_fault env (Suc ?a) = None"
    "grb_fault env (Suc (Suc ?a)) = None" "grb_fault env (Suc (Suc (Suc ?a))) = None"
    "grb_fault env (Suc (Suc (Suc (Suc ?a)))) = None"
    using nf [rule_format, of 0] nf [rule_format, of 1] nf [rule_format, of 2]
      nf [rule_format, of 3] nf [rule_format, of 4]
    by (simp_all add: numeral_eq_Suc)
  show "\<exists>s. addQubit env i (av, st) = Normal s \<and> (run_calls \<circ> snd) s = ?a + 5 \<and>
     (length (axxVars (fst s)) = Suc i \<and> length (axzVars (fst s)) = Suc i \<and>
      length (azxVars (fst s)) = Suc i \<and> length (azzVars (fst s)) = Suc i)"
    by (simp add: addQubit_def addVar_def addQConstr_def grbCall_def Let_def vecAt_def
        nth_append len f)
next
  let ?a = "run_calls st"
  fix d e
  assume d: "d < 5" and e: "grb_fault env (?a + d) = Some e"
    and n: "\<forall>j<d. grb_fault env (?a + j) = None"
  from d consider "d = 0" | "d = 1" | "d = 2" | "d = 3" | "d = 4" by arith
  then show "addQubit env i (av, st) = Throw e"
  proof cases
    case 1
    with e show ?thesis
      by (simp add: addQubit_def addVar_def addQConstr_def grbCall_def Let_def vecAt_def
          nth_append len)
  next
    case 2
    with n [rule_format, of 0] have "grb_fault env ?a = None" by simp
    with e 2 show ?thesis
      by (simp add: addQubit_def addVar_def addQConstr_def grbCall_def Let_def vecAt_def
          nth_append len)
  next
    case 3
    with n [rule_format, of 0] n [rule_format, of 1]
    have "grb_fault env ?a = None" "grb_fault env (Suc ?a) = None" by simp_all
    moreover from e 3 have "grb_fault env (Suc (Suc ?a)) = Some e" by (simp add: numeral_eq_Suc)
    ultimately show ?thesis
      by (simp add: addQubit_def addVar_def addQConstr_def grbCall_def Let_def vecAt_def
          nth_append len)
  next
    case 4
    with n [rule_format, of 0] n [rule_format, of 1] n [rule_format, of 2]
    have "grb_fault env ?a = None" "grb_fault env (Suc ?a) = None"
      "grb_fault env (Suc (Suc ?a)) = None" by (simp_all add: numeral_eq_Suc)
    moreover from e 4 have "grb_fault env (Suc (Suc (Suc ?a))) = Some e"
      by (simp add: numeral_eq_Suc)
    ultimately show ?thesis
      by (simp add: addQubit_def addVar_def addQConstr_def grbCall_def Let_def vecAt_def
          nth_append len)
  next
    case 5
    with n [rule_format, of 0] n [rule_format, of 1] n [rule_format, of 2]
      n [rule_format, of 3]
    have "grb_fault env ?a = None" "grb_fault env (Suc ?a) = None"
      "grb_fault env (Suc (Suc ?a)) = None" "grb_fault env (Suc (Suc (Suc ?a))) = None"
      by (simp_all add: numeral_eq_Suc)
    moreover from e 5 have "grb_fault env (Suc (Suc (Suc (Suc ?a)))) = Some e"
      by (simp add: numeral_eq_Suc)
    ultimately show ?thesis
      by (simp add: addQubit_def addVar_def addQConstr_def grbCall_def Let_def vecAt_def
          nth_append len)
  qed
qed

lemma callStep_readGate:
  assumes i: "i < n"
  shows "callStep env (run_calls st) 4 (readGate env (qubitVars n) i (layer, st))
           (run_calls \<circ> snd) (\<lambda>s. True)"
proof (rule callStep_I)
  let ?a = "run_calls st"
  assume nf: "\<forall>j<4. grb_fault env (?a + j) = None"
  have f: "grb_fault env ?a = None" "grb_fault env (Suc ?a) = None"
    "grb_fault env (Suc (Suc ?a)) = None" "grb_fault env (Suc (Suc (Suc ?a))) = None"
    using nf [rule_format, of 0] nf [rule_format, of 1] nf [rule_format, of 2]
      nf [rule_format, of 3]
    by (simp_all add: numeral_eq_Suc)
  show "\<exists>s. readGate env (qubitVars n) i (layer, st) = Normal s \<and>
      (run_calls \<circ> snd) s = ?a + 4 \<and> True"
    using i by (simp add: readGate_def getX_def grbCall_def vecAt_def f)
next
  let ?a = "run_calls st"
  fix d e
  assume d: "d < 4" and e: "grb_fault env (?a + d) = Some e"
    and n: "\<forall>j<d. grb_fault env (?a + j) = None"
  from d consider "d = 0" | "d = 1" | "d = 2" | "d = 3" by arith
  then show "readGate env (qubitVars n) i (layer, st) = Throw e"
  proof cases
    case 1
    with e i show ?thesis
      by (simp add: readGate_def getX_def grbCall_def vecAt_def)
  next
    case 2
    with n [rule_format, of 0] have "grb_fault env ?a = None" by simp
    with e 2 i show ?thesis
      by (simp add: readGate_def getX_def grbCall_def vecAt_def)
  next
    case 3
    with n [rule_format, of 0] n [rule_format, of 1]
    have "grb_fault env ?a = None" "grb_fault env (Suc ?a) = None" by simp_all
    moreover from e 3 have "grb_fault env (Suc (Suc ?a)) = Some e" by (simp add: numeral_eq_Suc)
    ultimately show ?thesis using i
      by (simp add: readGate_def getX_def grbCall_def vecAt_def)
  next
    case 4
    with n [rule_format, of 0] n [rule_format, of 1] n [rule_format, of 2]
    have "grb_fault env ?a = None" "grb_fault env (Suc ?a) = None"
      "grb_fault env (Suc (Suc ?a)) = None" by (simp_all add: numeral_eq_Suc)
    moreover from e 4 have "grb_fault env (Suc (Suc (Suc ?a))) = Some e"
      by (simp add: numeral_eq_Suc)
    ultimately show ?thesis using i
      by (simp add: readGate_def getX_def grbCall_def vecAt_def)
  qed
qed

lemma callStep_startModel: "callStep env 0 6 (startModel env) run_calls (\<lambda>s. True)"
proof -
  have "callStep env 0 (1 * length [0..<6 :: nat])
      (forEach (\<lambda>(_ :: nat). grbCall env) [0..<6] \<lparr>run_model = emptyModel, run_calls = 0\<rparr>)
      run_calls (\<lambda>s. True)"
  proof (rule forEach_calls [where I = "\<lambda>j s. True"])
    fix j :: nat and s :: Run
    assume "run_calls s = 0 + 1 * j"
    with callStep_grbCall [of env s]
    show "callStep env (0 + 1 * j) 1 (grbCall env s) run_calls (\<lambda>s. True)"
      by (simp add: callStep_weaken)
  qed simp_all
  then show ?thesis by (simp add: startModel_def)
qed

lemma callStep_qubitLoop:
  "callStep env (run_calls st) (5 * n) (forEach (addQubit env) [0..<n] (noVars, st))
     (run_calls \<circ> snd) (\<lambda>s. True)"
proof -
  let ?I = "\<lambda>j s. length (axxVars (fst s)) = j \<and> length (axzVars (fst s)) = j \<and>
                length (azxVars (fst s)) = j \<and> length (azzVars (fst s)) = j"
  have "callStep env (run_calls st) (5 * length [0..<n])
      (forEach (addQubit env) [0..<n] (noVars, st)) (run_calls \<circ> snd) (?I (length [0..<n]))"
  proof (rule forEach_calls [where I = ?I])
    fix j and s :: "AVars \<times> Run"
    assume j: "j < length [0..<n]" and inv: "?I j s"
      and c: "(run_calls \<circ> snd) s = run_calls st + 5 * j"
    obtain av st' where s: "s = (av, st')" by (cases s)
    from callStep_addQubit [of av j env st'] inv c j
    show "callStep env (run_calls st + 5 * j) 5 (addQubit env ([0..<n] ! j) s)
        (run_calls \<circ> snd) (?I (Suc j))"
      by (simp add: s)
  qed (simp_all add: noVars_def)
  then show ?thesis by (simp add: callStep_weaken)
qed

lemma callStep_dummyLoop:
  "callStep env (run_calls st) k (forEach (addDummy env) [0..<k] ([], st))
     (run_calls \<circ> snd) (\<lambda>s. True)"
proof -
  have "callStep env (run_calls st) (1 * length [0..<k])
      (forEach (addDummy env) [0..<k] ([], st)) (run_calls \<circ> snd) (\<lambda>s. True)"
  proof (rule forEach_calls [where I = "\<lambda>j s. True"])
    fix j and s :: "GRBVar list \<times> Run"
    assume c: "(run_calls \<circ> snd) s = run_calls st + 1 * j"
    obtain dv st' where s: "s = (dv, st')" by (cases s)
    from callStep_addDummy [of env st' "[0..<k] ! j" dv] c
    show "callStep env (run_calls st + 1 * j) 1 (addDummy env ([0..<k] ! j) s)
        (run_calls \<circ> snd) (\<lambda>s. True)"
      by (simp add: s)
  qed simp_all
  then show ?thesis by simp
qed

lemma callStep_equationLoop:
  assumes lin: "\<forall>row \<in> set rows. \<exists>l. toGRBLinExpression env av row = Normal l"
    and fits: "length rows \<le> length dv"
  shows "callStep env (run_calls st) (length rows)
     (forEach (addEquation env av dv) rows (0, st)) (run_calls \<circ> snd) (\<lambda>s. True)"
proof -
  have "callStep env (run_calls st) (1 * length rows)
      (forEach (addEquation env av dv) rows (0, st)) (run_calls \<circ> snd)
      (\<lambda>s. fst s = length rows)"
  proof (rule forEach_calls [where I = "\<lambda>j s. fst s = j"])
    fix j and s :: "nat \<times> Run"
    assume j: "j < length rows" and inv: "fst s = j"
      and c: "(run_calls \<circ> snd) s = run_calls st + 1 * j"
    obtain i st' where s: "s = (i, st')" by (cases s)
    from lin j obtain l where l: "toGRBLinExpression env av (rows ! j) = Normal l"
      by (meson nth_mem)
    from j fits have "j < length dv" by simp
    from callStep_addEquation [OF l this, of st'] inv c
    show "callStep env (run_calls st + 1 * j) 1 (addEquation env av dv (rows ! j) s)
        (run_calls \<circ> snd) (\<lambda>s. fst s = Suc j)"
      by (simp add: s)
  qed simp_all
  then show ?thesis by (simp add: callStep_weaken)
qed

lemma callStep_readLoop:
  "callStep env (run_calls st) (4 * n) (forEach (readGate env (qubitVars n)) [0..<n] ([], st))
     (run_calls \<circ> snd) (\<lambda>s. True)"
proof -
  have "callStep env (run_calls st) (4 * length [0..<n])
      (forEach (readGate env (qubitVars n)) [0..<n] ([], st)) (run_calls \<circ> snd) (\<lambda>s. True)"
  proof (rule forEach_calls [where I = "\<lambda>j s. True"])
    fix j and s :: "BinaryCliffordGate list \<times> Run"
    assume j: "j < length [0..<n]"
      and c: "(run_calls \<circ> snd) s = run_calls st + 4 * j"
    obtain layer st' where s: "s = (layer, st')" by (cases s)
    from j have "j < n" by simp
    from callStep_readGate [OF this, of env st' layer] c j
    show "callStep env (run_calls st + 4 * j) 4 (readGate env (qubitVars n) ([0..<n] ! j) s)
        (run_calls \<circ> snd) (\<lambda>s. True)"
      by (simp add: s)
  qed simp_all
  then show ?thesis by simp
qed

lemma linearised_iff:
  "linearised env n lhs \<longleftrightarrow>
     (\<forall>row \<in> set lhs. \<exists>l. toGRBLinExpression env (qubitVars n) row = Normal l)"
proof -
  have "(case r of Normal e \<Rightarrow> True | _ \<Rightarrow> False) \<longleftrightarrow> (\<exists>l. r = Normal l)"
    for r :: "GRBLinExpr outcome"
    by (cases r) simp_all
  then show ?thesis by (simp add: linearised_def list_all_iff)
qed

lemma callStep_buildModel:
  assumes lin: "linearised env n lhs" and fits: "length lhs \<le> numEqs"
  shows "callStep env 0 (6 + 5 * n + numEqs + length lhs) (buildModel env n numEqs lhs)
           (run_calls \<circ> snd) (\<lambda>s. True)"
proof -
  have eq: "callStep env (run_calls s2) (length lhs)
      (andThen (forEach (addEquation env av dv) lhs (0, s2)) (\<lambda>(i, st). Normal (av, st)))
      (run_calls \<circ> snd) (\<lambda>s. True)"
    if av: "av = qubitVars n" and dv: "length dv = numEqs" for av dv s2
  proof -
    have "callStep env (run_calls s2) (length lhs + 0)
      (andThen (forEach (addEquation env av dv) lhs (0, s2)) (\<lambda>(i, st). Normal (av, st)))
      (run_calls \<circ> snd) (\<lambda>s. True)"
    proof (rule callStep_andThen [OF callStep_equationLoop])
      show "\<forall>row \<in> set lhs. \<exists>l. toGRBLinExpression env av row = Normal l"
        using lin by (simp add: linearised_iff av)
      show "length lhs \<le> length dv" using fits dv by simp
    next
      fix s :: "nat \<times> Run"
      assume "(run_calls \<circ> snd) s = run_calls s2 + length lhs"
      then show "callStep env (run_calls s2 + length lhs) 0
          (case s of (i, st) \<Rightarrow> Normal (av, st)) (run_calls \<circ> snd) (\<lambda>s. True)"
        by (cases s) (simp add: callStep_pure)
    qed
    then show ?thesis by simp
  qed
  have du: "callStep env (run_calls s1) (numEqs + length lhs)
      (andThen (forEach (addDummy env) [0..<numEqs] ([], s1)) (\<lambda>(dummyVars, st).
         andThen (forEach (addEquation env av dummyVars) lhs (0, st)) (\<lambda>(i, st).
         Normal (av, st))))
      (run_calls \<circ> snd) (\<lambda>s. True)"
    if av: "av = qubitVars n" for av s1
  proof (rule callStep_andThen [OF callStep_dummyLoop])
    fix s :: "GRBVar list \<times> Run"
    assume run: "forEach (addDummy env) [0..<numEqs] ([], s1) = Normal s"
      and c: "(run_calls \<circ> snd) s = run_calls s1 + numEqs"
    obtain dv s2 where s: "s = (dv, s2)" by (cases s)
    from dummyLoop_Normal [OF run [unfolded s]] have "length dv = numEqs" by simp
    from eq [OF av this, of s2] c
    show "callStep env (run_calls s1 + numEqs) (length lhs)
        (case s of (dummyVars, st) \<Rightarrow>
           andThen (forEach (addEquation env av dummyVars) lhs (0, st)) (\<lambda>(i, st).
           Normal (av, st)))
        (run_calls \<circ> snd) (\<lambda>s. True)"
      by (simp add: s)
  qed
  have qu: "callStep env (run_calls s0) (5 * n + (numEqs + length lhs))
      (andThen (forEach (addQubit env) [0..<n] (noVars, s0)) (\<lambda>(av, st).
         andThen (forEach (addDummy env) [0..<numEqs] ([], st)) (\<lambda>(dummyVars, st).
         andThen (forEach (addEquation env av dummyVars) lhs (0, st)) (\<lambda>(i, st).
         Normal (av, st)))))
      (run_calls \<circ> snd) (\<lambda>s. True)"
    if m0: "m_vars (run_model s0) = []" for s0
  proof (rule callStep_andThen [OF callStep_qubitLoop])
    fix s :: "AVars \<times> Run"
    assume run: "forEach (addQubit env) [0..<n] (noVars, s0) = Normal s"
      and c: "(run_calls \<circ> snd) s = run_calls s0 + 5 * n"
    obtain av s1 where s: "s = (av, s1)" by (cases s)
    from qubitLoop_Normal [OF run [unfolded s] m0] have av: "av = qubitVars n" by simp
    from du [OF av, of s1] c
    show "callStep env (run_calls s0 + 5 * n) (numEqs + length lhs)
        (case s of (av, st) \<Rightarrow>
         andThen (forEach (addDummy env) [0..<numEqs] ([], st)) (\<lambda>(dummyVars, st).
         andThen (forEach (addEquation env av dummyVars) lhs (0, st)) (\<lambda>(i, st).
         Normal (av, st))))
        (run_calls \<circ> snd) (\<lambda>s. True)"
      by (simp add: s)
  qed
  have "callStep env 0 (6 + (5 * n + (numEqs + length lhs))) (buildModel env n numEqs lhs)
           (run_calls \<circ> snd) (\<lambda>s. True)"
    unfolding buildModel_def
  proof (rule callStep_andThen [OF callStep_startModel])
    fix s0 :: Run
    assume run: "startModel env = Normal s0" and c: "run_calls s0 = 0 + 6"
    from startModel_Normal [OF run] have "m_vars (run_model s0) = []"
      by (simp add: emptyModel_def)
    from qu [OF this] c
    show "callStep env (0 + 6) (5 * n + (numEqs + length lhs))
      (andThen (forEach (addQubit env) [0..<n] (noVars, s0)) (\<lambda>(av, st).
         andThen (forEach (addDummy env) [0..<numEqs] ([], st)) (\<lambda>(dummyVars, st).
         andThen (forEach (addEquation env av dummyVars) lhs (0, st)) (\<lambda>(i, st).
         Normal (av, st)))))
      (run_calls \<circ> snd) (\<lambda>s. True)"
      by simp
  qed
  then show ?thesis by (simp add: add.assoc)
qed

lemma callStep_tryBlock:
  assumes lin: "linearised env n lhs" and fits: "length lhs \<le> numEqs"
  shows "callStep env 0 (callsMade env n numEqs lhs) (tryBlock env n numEqs lhs)
           (\<lambda>r. callsMade env n numEqs lhs)
           (\<lambda>r. r = None \<longleftrightarrow> fst (grb_optimize env (builtModel env n numEqs lhs)) \<noteq> 2)"
proof -
  let ?M = "builtModel env n numEqs lhs"
  let ?b = "6 + 5 * n + numEqs + length lhs"
  let ?x = "if fst (grb_optimize env ?M) = 2 then 4 * n else 0"
  let ?Q = "\<lambda>r :: BinaryCliffordGate list option. r = None \<longleftrightarrow> fst (grb_optimize env ?M) \<noteq> 2"
  have total: "callsMade env n numEqs lhs = ?b + (2 + ?x)"
    by (simp add: callsMade_def callsToSolve_def)
  have rd: "callStep env (?b + 2) ?x
      (if status \<noteq> 2 then Normal None
       else andThen (forEach (readGate env av) [0..<n] ([], s2)) (\<lambda>(singleQubitLayer, st).
            Normal (Some singleQubitLayer)))
      (\<lambda>r. callsMade env n numEqs lhs) ?Q"
    if av: "av = qubitVars n" and status: "status = fst (grb_optimize env ?M)"
      and c: "run_calls s2 = ?b + 2" for av status s2
  proof (cases "status = 2")
    case False
    with status show ?thesis by (simp add: callStep_pure total)
  next
    case True
    have "callStep env (run_calls s2) (4 * n + 0)
        (andThen (forEach (readGate env (qubitVars n)) [0..<n] ([], s2))
           (\<lambda>(singleQubitLayer, st). Normal (Some singleQubitLayer)))
        (\<lambda>r. callsMade env n numEqs lhs) ?Q"
    proof (rule callStep_andThen [OF callStep_readLoop])
      fix s :: "BinaryCliffordGate list \<times> Run"
      show "callStep env (run_calls s2 + 4 * n) 0
          (case s of (singleQubitLayer, st) \<Rightarrow> Normal (Some singleQubitLayer))
          (\<lambda>r. callsMade env n numEqs lhs) ?Q"
        using True status c by (cases s) (simp add: callStep_pure total)
    qed
    with True status c show ?thesis by (simp add: av)
  qed
  have op: "callStep env ?b (2 + ?x)
      (andThen (optimizeModel env st) (\<lambda>(status, st).
         if status \<noteq> 2 then Normal None
         else andThen (forEach (readGate env av) [0..<n] ([], st)) (\<lambda>(singleQubitLayer, st).
              Normal (Some singleQubitLayer))))
      (\<lambda>r. callsMade env n numEqs lhs) ?Q"
    if av: "av = qubitVars n" and m: "run_model st = ?M" and c: "run_calls st = ?b" for av st
    unfolding c [symmetric]
  proof (rule callStep_andThen [OF callStep_optimizeModel])
    fix s :: "int \<times> Run"
    assume q: "fst s = fst (grb_optimize env (run_model st)) \<and> run_model (snd s) = run_model st"
      and c2: "(run_calls \<circ> snd) s = run_calls st + 2"
    obtain status s2 where s: "s = (status, s2)" by (cases s)
    from q have status: "status = fst (grb_optimize env ?M)" by (simp add: s m)
    from c2 have "run_calls s2 = ?b + 2" by (simp add: s c)
    from rd [OF av status this]
    show "callStep env (run_calls st + 2) ?x
        (case s of (status, st) \<Rightarrow>
           if status \<noteq> 2 then Normal None
           else andThen (forEach (readGate env av) [0..<n] ([], st)) (\<lambda>(singleQubitLayer, st).
                Normal (Some singleQubitLayer)))
        (\<lambda>r. callsMade env n numEqs lhs) ?Q"
      by (simp add: s c)
  qed
  have "callStep env 0 (?b + (2 + ?x)) (tryBlock env n numEqs lhs)
      (\<lambda>r. callsMade env n numEqs lhs) ?Q"
    unfolding tryBlock_def
  proof (rule callStep_andThen [OF callStep_buildModel [OF lin fits]])
    fix s :: "AVars \<times> Run"
    assume run: "buildModel env n numEqs lhs = Normal s"
      and c: "(run_calls \<circ> snd) s = 0 + ?b"
    obtain av st where s: "s = (av, st)" by (cases s)
    from buildModel_Normal [OF run [unfolded s]] have av: "av = qubitVars n"
      and m: "run_model st = ?M" by simp_all
    from c have "run_calls st = ?b" by (simp add: s)
    from op [OF av m this]
    show "callStep env (0 + ?b) (2 + ?x)
        (case s of (av, st) \<Rightarrow>
         andThen (optimizeModel env st) (\<lambda>(status, st).
         if status \<noteq> 2 then Normal None
         else andThen (forEach (readGate env av) [0..<n] ([], st)) (\<lambda>(singleQubitLayer, st).
              Normal (Some singleQubitLayer))))
        (\<lambda>r. callsMade env n numEqs lhs) ?Q"
      by (simp add: s)
  qed
  then show ?thesis by (simp only: total)
qed

lemma least_fault:
  assumes "\<not> noFault env 0 b"
  shows "\<exists>k<b. \<exists>e. firstFault env k e"
proof -
  from assms obtain k0 where k0: "k0 < b" "grb_fault env k0 \<noteq> None"
    unfolding noFault_iff by auto
  define k where "k = (LEAST k. grb_fault env k \<noteq> None)"
  have f: "grb_fault env k \<noteq> None" unfolding k_def by (rule LeastI [of _ k0]) (rule k0)
  have le: "k \<le> k0" unfolding k_def by (rule Least_le) (rule k0)
  have "grb_fault env j = None" if "j < k" for j
    using not_less_Least [of j "\<lambda>k. grb_fault env k \<noteq> None"] that unfolding k_def by simp
  then have "noFault env 0 k" by (simp add: noFault_iff)
  with f le k0 show ?thesis unfolding firstFault_def by (intro exI [of _ k]) auto
qed

lemma tryBlock_outcomes:
  assumes lin: "linearised env n lhs" and fits: "length lhs \<le> numEqs"
  shows "tryBlock env n numEqs lhs = Throw e \<longleftrightarrow>
           (\<exists>k<callsMade env n numEqs lhs. firstFault env k e)"
    and "tryBlock env n numEqs lhs = Normal None \<longleftrightarrow>
           noFault env 0 (callsToSolve n numEqs lhs) \<and>
           fst (grb_optimize env (builtModel env n numEqs lhs)) \<noteq> 2"
proof -
  let ?c = "callsMade env n numEqs lhs"
  let ?status = "fst (grb_optimize env (builtModel env n numEqs lhs))"
  note C = callStep_tryBlock [OF lin fits, unfolded callStep_def, simplified]
  have A: "\<exists>r. tryBlock env n numEqs lhs = Normal r \<and> (r = None \<longleftrightarrow> ?status \<noteq> 2)"
    if "noFault env 0 ?c"
    using C that by blast
  have B: "tryBlock env n numEqs lhs = Throw e'" if "k < ?c" "firstFault env k e'" for k e'
    using C that unfolding firstFault_def by blast
  show "tryBlock env n numEqs lhs = Throw e \<longleftrightarrow> (\<exists>k<?c. firstFault env k e)"
  proof
    assume t: "tryBlock env n numEqs lhs = Throw e"
    with A have "\<not> noFault env 0 ?c" by auto
    from least_fault [OF this] obtain k e' where k: "k < ?c" "firstFault env k e'" by blast
    from B [OF k] t have "e' = e" by simp
    with k show "\<exists>k<?c. firstFault env k e" by blast
  next
    assume "\<exists>k<?c. firstFault env k e"
    then show "tryBlock env n numEqs lhs = Throw e" using B by blast
  qed
  show "tryBlock env n numEqs lhs = Normal None \<longleftrightarrow>
      noFault env 0 (callsToSolve n numEqs lhs) \<and> ?status \<noteq> 2"
  proof
    assume t: "tryBlock env n numEqs lhs = Normal None"
    have nf: "noFault env 0 ?c"
    proof (rule ccontr)
      assume "\<not> noFault env 0 ?c"
      from least_fault [OF this] obtain k e' where "k < ?c" "firstFault env k e'" by blast
      from B [OF this] t show False by simp
    qed
    from A [OF nf] t have st: "?status \<noteq> 2" by simp
    with nf show "noFault env 0 (callsToSolve n numEqs lhs) \<and> ?status \<noteq> 2"
      by (simp add: callsMade_def)
  next
    assume h: "noFault env 0 (callsToSolve n numEqs lhs) \<and> ?status \<noteq> 2"
    then have "noFault env 0 ?c" by (simp add: callsMade_def)
    from A [OF this] h show "tryBlock env n numEqs lhs = Normal None" by auto
  qed
qed

subsection \<open>The empty result\<close>

lemma length_lhsMatrix [simp]: "length (lhsMatrix graph n m R S) = n * m"
proof -
  have "sum_list (map (\<lambda>i. m) xs) = length xs * m" for xs :: "nat list"
    by (induction xs) simp_all
  then show ?thesis by (simp add: lhsMatrix_def length_concat comp_def)
qed




lemma tryBlock_Some_iff:
  assumes lin: "linearised env n lhs" and fits: "length lhs \<le> numEqs"
  shows "tryBlock env n numEqs lhs = Normal (Some gates) \<longleftrightarrow>
           noFault env 0 (callsMade env n numEqs lhs) \<and>
           fst (grb_optimize env (builtModel env n numEqs lhs)) = 2 \<and>
           gates = map (gateOf env (snd (grb_optimize env (builtModel env n numEqs lhs)))) [0..<n]"
proof -
  let ?c = "callsMade env n numEqs lhs"
  let ?status = "fst (grb_optimize env (builtModel env n numEqs lhs))"
  note C = callStep_tryBlock [OF lin fits, unfolded callStep_def, simplified]
  have A: "\<exists>r. tryBlock env n numEqs lhs = Normal r \<and> (r = None \<longleftrightarrow> ?status \<noteq> 2)"
    if "noFault env 0 ?c"
    using C that by blast
  show ?thesis
  proof
    assume t: "tryBlock env n numEqs lhs = Normal (Some gates)"
    have "noFault env 0 ?c"
    proof (rule ccontr)
      assume "\<not> noFault env 0 ?c"
      from least_fault [OF this] obtain k e where "k < ?c" "firstFault env k e" by blast
      with tryBlock_outcomes(1) [OF lin fits, of e] t show False by auto
    qed
    with tryBlock_Some [OF t]
    show "noFault env 0 ?c \<and> ?status = 2 \<and>
        gates = map (gateOf env (snd (grb_optimize env (builtModel env n numEqs lhs)))) [0..<n]"
      by simp
  next
    assume h: "noFault env 0 ?c \<and> ?status = 2 \<and>
        gates = map (gateOf env (snd (grb_optimize env (builtModel env n numEqs lhs)))) [0..<n]"
    with A obtain g where g: "tryBlock env n numEqs lhs = Normal (Some g)" by auto
    from tryBlock_Some [OF g] h show "tryBlock env n numEqs lhs = Normal (Some gates)"
      by (simp add: g)
  qed
qed
















subsection \<open>The dummy variables and the linear constraints\<close>

lemma forEach_invariant:
  assumes "forEach body xs s = Normal s'" and "I s"
    and step: "\<And>x t t'. I t \<Longrightarrow> body x t = Normal t' \<Longrightarrow> I t'"
  shows "I s'"
  using assms(1,2)
proof (induction xs arbitrary: s)
  case Nil
  then show ?case by simp
next
  case (Cons x xs)
  from Cons.prems(1) obtain t where b: "body x s = Normal t" and r: "forEach body xs t = Normal s'"
    by (auto simp: andThen_Normal)
  from Cons.IH [OF r step [OF Cons.prems(2) b]] show ?case .
qed

lemma getVar_handle:
  assumes "getVar (qubitVars n) c = Normal v"
  shows "v < 4 * n"
proof -
  from assms obtain c1 c2 c3 where
    r: "(let aVars = [axxVars (qubitVars n), axzVars (qubitVars n), azxVars (qubitVars n),
                      azzVars (qubitVars n)];
             vec = aVars ! ((if c1 = CHR ''z'' then 2 else 0) + (if c2 = CHR ''z'' then 1 else 0));
             idx = charToInt c3 - 48
         in if idx < 0 then Undefined else vecAt vec (nat idx)) = Normal v"
    unfolding getVar_def andThen_Normal by blast
  have "\<exists>j. vecAt (axxVars (qubitVars n)) j = Normal v \<or> vecAt (axzVars (qubitVars n)) j = Normal v \<or>
            vecAt (azxVars (qubitVars n)) j = Normal v \<or> vecAt (azzVars (qubitVars n)) j = Normal v"
    using r by (cases "c1 = CHR ''z''"; cases "c2 = CHR ''z''") (auto simp: Let_def split: if_splits)
  then show ?thesis
    by (auto simp: vecAt_Normal qubitVars_def)
qed

lemma scaled_zero_terms: "lin_terms q = [] \<Longrightarrow> lin_terms (foldl (\<lambda>p d. linScale p (Re d)) q ds) = []"
  by (induction ds arbitrary: q) (simp_all add: linScale_def)

lemma toGRBLinExpression_handles:
  assumes "toGRBLinExpression env (qubitVars n) t = Normal lin"
  shows "\<forall>(k, v) \<in> set (lin_terms lin). v < 4 * n"
proof -
  define I where "I = (\<lambda>e :: GRBLinExpr. \<forall>(k, v) \<in> set (lin_terms e). v < 4 * n)"
  define e0 where "e0 = foldl (\<lambda>e c. linAddConst e (Re c)) linZero (t_numbers (simplifiedTerm env t))"
  have "lin_terms (foldl (\<lambda>e c. linAddConst e (Re c)) q cs) = lin_terms q" for q cs
    by (induction cs arbitrary: q) (simp_all add: linAddConst_def)
  then have I0: "I e0" by (simp add: I_def e0_def linZero_def)
  from assms obtain e1 where
    l1: "forEach (\<lambda>c e. andThen (getVar (qubitVars n) c) (\<lambda>v. Normal (linAddVar e v)))
           (t_variables (simplifiedTerm env t)) e0 = Normal e1" and
    l2: "forEach (\<lambda>c e. if asserts_enabled env \<and> p_sums c \<noteq> [] then Abort
                else let p = foldl (\<lambda>p d. linScale p (Re d)) linZero (p_numbers c)
                     in Normal (linAdd e p)) (t_products (simplifiedTerm env t)) e1 = Normal lin"
    by (auto simp: toGRBLinExpression_def Let_def andThen_Normal e0_def split: if_splits)
  have I1: "I e1"
  proof (rule forEach_invariant [where I = I, OF l1 I0])
    fix c e e' assume "I e" and "andThen (getVar (qubitVars n) c) (\<lambda>v. Normal (linAddVar e v)) = Normal e'"
    then show "I e'"
      by (auto simp: andThen_Normal I_def linAddVar_def dest: getVar_handle)
  qed
  have "I lin"
  proof (rule forEach_invariant [where I = I, OF l2 I1])
    fix c e e' assume "I e" and "(if asserts_enabled env \<and> p_sums c \<noteq> [] then Abort
                else let p = foldl (\<lambda>p d. linScale p (Re d)) linZero (p_numbers c)
                     in Normal (linAdd e p)) = Normal e'"
    then show "I e'"
      by (auto simp: I_def linAdd_def Let_def scaled_zero_terms linZero_def split: if_splits)
  qed
  then show ?thesis by (simp add: I_def)
qed

lemma evalLin_linScale: "evalLin a (linScale e c) = evalLin a e * c"
proof -
  have "sum_list (map (\<lambda>(k, v). k * a v) (map (\<lambda>(k, v). (k * c, v)) ts))
      = sum_list (map (\<lambda>(k, v). k * a v) ts) * c" for ts
    by (induction ts) (auto simp: algebra_simps)
  then show ?thesis by (simp add: evalLin_def linScale_def algebra_simps)
qed

lemma evalLin_upd:
  assumes "\<forall>(k, v) \<in> set (lin_terms e). v < b" and "b \<le> w"
  shows "evalLin (a(w := x)) e = evalLin a e"
proof -
  have "map (\<lambda>(k, v). k * (a(w := x)) v) (lin_terms e) = map (\<lambda>(k, v). k * a v) (lin_terms e)"
    by (rule map_cong [OF refl]) (use assms in auto)
  then show ?thesis unfolding evalLin_def by (simp only:)
qed

lemma dummy_half:
  fixes val :: real
  shows "(\<exists>x. varAdmits dummyDecl x \<and> val * 0.5 = x) \<longleftrightarrow>
         (\<exists>k::int. - 1000 \<le> k \<and> k \<le> 1000 \<and> val = 2 * of_int k)"
proof
  assume "\<exists>x. varAdmits dummyDecl x \<and> val * 0.5 = x"
  then obtain x where adm: "varAdmits dummyDecl x" and half: "val * 0.5 = x" by blast
  from adm have b: "- 1000 \<le> x" "x \<le> 1000" and i: "of_int \<lfloor>x\<rfloor> = x"
    unfolding varAdmits_def dummyDecl_def by simp_all
  have "- 1000 \<le> \<lfloor>x\<rfloor>" "\<lfloor>x\<rfloor> \<le> 1000" using b by linarith+
  moreover have "val = 2 * of_int \<lfloor>x\<rfloor>" unfolding i using half by simp
  ultimately show "\<exists>k::int. - 1000 \<le> k \<and> k \<le> 1000 \<and> val = 2 * of_int k" by blast
next
  assume "\<exists>k::int. - 1000 \<le> k \<and> k \<le> 1000 \<and> val = 2 * of_int k"
  then obtain k :: int where k: "- 1000 \<le> k" "k \<le> 1000" "val = 2 * of_int k" by blast
  have "varAdmits dummyDecl (of_int k)" using k(1,2) by (simp add: varAdmits_def dummyDecl_def)
  moreover have "val * 0.5 = of_int k" using k(3) by simp
  ultimately show "\<exists>x. varAdmits dummyDecl x \<and> val * 0.5 = x" by blast
qed

lemma builtModel_vars:
  "length (m_vars (builtModel env n numEqs lhs)) = 4 * n + numEqs"
  "e < numEqs \<Longrightarrow> m_vars (builtModel env n numEqs lhs) ! (4 * n + e) = dummyDecl"
  by (simp_all add: builtModel_def nth_append)

lemma builtModel_constrs:
  "length (m_constrs (builtModel env n numEqs lhs)) = length lhs"
  "e < length lhs \<Longrightarrow> m_constrs (builtModel env n numEqs lhs) ! e = halfConstr env n e (lhs ! e)"
  by (simp_all add: builtModel_def)

text \<open>
  C5, amended. When the model is built (no call fails, no assertion fails, no index leaves
  its range), it has, after the four variables of each qubit, one dummy variable per
  equation: an integer variable with the bounds -1000 and 1000; and one linear constraint
  per entry of \<^verbatim>\<open>lhs\<close>, which equates half the linearised entry with the dummy variable of
  the same position. Whatever the other variables are, such a constraint can be met by a
  value of its dummy variable exactly when the linearised value is twice an integer between
  -1000 and 1000: even, and between -2000 and 2000. Both overloads pass \<open>n * m\<close> for
  \<open>numEqs\<close> and an \<^verbatim>\<open>lhs\<close> of \<open>n * m\<close> entries (\<open>length_lhsMatrix\<close>).
\<close>

theorem slack_constraints:
  assumes built: "buildModel env n numEqs lhs = Normal (av, st)"
  shows "length (m_vars (run_model st)) = 4 * n + numEqs \<and>
    (\<forall>e<numEqs. m_vars (run_model st) ! (4 * n + e) =
        \<lparr>var_lb = - 1000, var_ub = 1000, var_obj = 0, var_type = GRB_INTEGER, var_name = ''''\<rparr>) \<and>
    length (m_constrs (run_model st)) = length lhs \<and>
    (lhs \<noteq> [] \<longrightarrow> length lhs \<le> numEqs) \<and>
    (\<forall>e<length lhs. \<exists>lin.
        toGRBLinExpression env av (lhs ! e) = Normal lin \<and>
        m_constrs (run_model st) ! e =
          \<lparr>c_lhs = linScale lin 0.5, c_rhs = 4 * n + e, c_name = ''i'' @ to_string e\<rparr> \<and>
        (\<forall>a. (\<exists>x. varAdmits (m_vars (run_model st) ! (4 * n + e)) x \<and>
                  constrHolds (a(4 * n + e := x)) (m_constrs (run_model st) ! e))
             \<longleftrightarrow> (\<exists>k::int. - 1000 \<le> k \<and> k \<le> 1000 \<and> evalLin a lin = 2 * of_int k)))"
proof -
  note B = buildModel_Normal [OF built]
  from B have av: "av = qubitVars n" and m: "run_model st = builtModel env n numEqs lhs"
    and len: "lhs \<noteq> [] \<longrightarrow> length lhs \<le> numEqs"
    and lin: "\<forall>row \<in> set lhs. \<exists>e. toGRBLinExpression env (qubitVars n) row = Normal e"
    by blast+
  have v1: "length (m_vars (run_model st)) = 4 * n + numEqs"
    by (simp add: m builtModel_vars)
  have v2: "\<forall>e<numEqs. m_vars (run_model st) ! (4 * n + e) =
        \<lparr>var_lb = - 1000, var_ub = 1000, var_obj = 0, var_type = GRB_INTEGER, var_name = ''''\<rparr>"
    by (simp add: m builtModel_vars) (simp add: dummyDecl_def)
  have c1: "length (m_constrs (run_model st)) = length lhs"
    by (simp add: m builtModel_constrs)
  have c2: "\<exists>lin.
        toGRBLinExpression env av (lhs ! e) = Normal lin \<and>
        m_constrs (run_model st) ! e =
          \<lparr>c_lhs = linScale lin 0.5, c_rhs = 4 * n + e, c_name = ''i'' @ to_string e\<rparr> \<and>
        (\<forall>a. (\<exists>x. varAdmits (m_vars (run_model st) ! (4 * n + e)) x \<and>
                  constrHolds (a(4 * n + e := x)) (m_constrs (run_model st) ! e))
             \<longleftrightarrow> (\<exists>k::int. - 1000 \<le> k \<and> k \<le> 1000 \<and> evalLin a lin = 2 * of_int k))"
    if e: "e < length lhs" for e
  proof -
    from e have "lhs ! e \<in> set lhs" by simp
    with lin obtain l where l: "toGRBLinExpression env (qubitVars n) (lhs ! e) = Normal l"
      by blast
    have lo: "linOf env (qubitVars n) (lhs ! e) = l" by (simp add: linOf_def l)
    from e len have eq: "e < numEqs" by (cases "lhs = []") auto
    have c: "m_constrs (run_model st) ! e =
          \<lparr>c_lhs = linScale l 0.5, c_rhs = 4 * n + e, c_name = ''i'' @ to_string e\<rparr>"
      using e by (simp add: m builtModel_constrs halfConstr_def lo)
    have d: "m_vars (run_model st) ! (4 * n + e) = dummyDecl"
      using eq by (simp add: m builtModel_vars)
    have h: "\<forall>(k, v) \<in> set (lin_terms l). v < 4 * n"
      by (rule toGRBLinExpression_handles [OF l])
    have sat: "(\<exists>x. varAdmits (m_vars (run_model st) ! (4 * n + e)) x \<and>
                  constrHolds (a(4 * n + e := x)) (m_constrs (run_model st) ! e))
             \<longleftrightarrow> (\<exists>k::int. - 1000 \<le> k \<and> k \<le> 1000 \<and> evalLin a l = 2 * of_int k)" for a
    proof -
      have "constrHolds (a(4 * n + e := x)) (m_constrs (run_model st) ! e) \<longleftrightarrow>
            evalLin a l * 0.5 = x" for x
        unfolding c constrHolds_def
        by (simp add: evalLin_linScale evalLin_upd [OF h])
      then show ?thesis unfolding d using dummy_half [of "evalLin a l"] by simp
    qed
    from l c sat show ?thesis unfolding av by blast
  qed
  from v1 v2 c1 len c2 show ?thesis by blast
qed

lemma build_X:
  "buildModel exampleEnv 1 1
     [\<lparr>t_numbers = [], t_variables = [Variable ''azx0''], t_products = []\<rparr>] =
   Normal (qubitVars 1,
     \<lparr>run_model = builtModel exampleEnv 1 1
        [\<lparr>t_numbers = [], t_variables = [Variable ''azx0''], t_products = []\<rparr>],
      run_calls = 13\<rparr>)"
  by (simp add: run_defs exampleEnv_simps qubitVars_def builtModel_def qubitDecls_def
      binaryDecl_def dummyDecl_def symplecticConstr_def halfConstr_def linOf_def)

lemma dummy_of_X:
  "m_vars (builtModel exampleEnv 1 1 l) ! 4 = dummyDecl"
  using builtModel_vars(2) [of 0 1 exampleEnv 1 l] by simp

theorem slack_constraints_witness:
  "buildModel exampleEnv 1 1
     (lhsMatrix (emptyGraph 1) 1 1 (matrixR [Pauli_of_string ''X''])
        (matrixS [Pauli_of_string ''X''])) =
   Normal (qubitVars 1,
     \<lparr>run_model = builtModel exampleEnv 1 1
        [\<lparr>t_numbers = [], t_variables = [Variable ''azx0''], t_products = []\<rparr>],
      run_calls = 13\<rparr>) \<and>
   length (m_vars (builtModel exampleEnv 1 1
        [\<lparr>t_numbers = [], t_variables = [Variable ''azx0''], t_products = []\<rparr>])) = 5 \<and>
   length (m_constrs (builtModel exampleEnv 1 1
        [\<lparr>t_numbers = [], t_variables = [Variable ''azx0''], t_products = []\<rparr>])) = 1"
proof -
  let ?t = "\<lparr>t_numbers = [], t_variables = [Variable ''azx0''], t_products = []\<rparr>"
  let ?st = "\<lparr>run_model = builtModel exampleEnv 1 1 [?t], run_calls = 13\<rparr>"
  have b: "buildModel exampleEnv 1 1 [?t] = Normal (qubitVars 1, ?st)" by (rule build_X)
  note T = slack_constraints [OF b]
  from T have v: "length (m_vars (run_model ?st)) = 4 * 1 + 1" by (rule conjunct1)
  from T have c: "length (m_constrs (run_model ?st)) = length [?t]"
    by (rule conjunct2 [THEN conjunct2, THEN conjunct1])
  show ?thesis unfolding lhs_X using b v c by simp
qed

text \<open>
  C5, as stated: the dummy variable is unbounded, and the constraint is satisfiable in
  integers exactly when the linearised value is even. In the model built for one qubit, the
  empty graph and the generator \<open>X\<close>, the dummy variable (position 4) is an integer
  variable that does not admit 1001, and for the even value 2002 no admitted value is its
  half.
\<close>

theorem slack_unbounded_counterexample:
  "(case buildModel exampleEnv 1 1
           (lhsMatrix (emptyGraph 1) 1 1 (matrixR [Pauli_of_string ''X''])
              (matrixS [Pauli_of_string ''X''])) of
      Normal (av, st) \<Rightarrow>
        var_type (m_vars (run_model st) ! 4) = GRB_INTEGER \<and>
        \<not> varAdmits (m_vars (run_model st) ! 4) 1001 \<and>
        \<not> (\<exists>x. varAdmits (m_vars (run_model st) ! 4) x \<and> 2002 * 0.5 = x)
    | _ \<Rightarrow> False) \<and> even (2002 :: int)"
proof -
  have a: "var_type dummyDecl = GRB_INTEGER" by (simp add: dummyDecl_def)
  have b: "\<not> varAdmits dummyDecl 1001" by (simp add: varAdmits_def dummyDecl_def)
  have c: "\<not> (\<exists>x. varAdmits dummyDecl x \<and> 2002 * 0.5 = x)"
    by (simp add: varAdmits_def dummyDecl_def)
  show ?thesis
    unfolding lhs_X build_X by (simp add: dummy_of_X a b c del: One_nat_def)
qed

subsection \<open>The two overloads against each other\<close>

lemma charToInt_digit: "k < 80 \<Longrightarrow> charToInt (char_of (48 + k)) = 48 + int k"
proof -
  assume k: "k < 80"
  have "(of_char (char_of (48 + k)) :: int) = of_nat (of_char (char_of (48 + k)))"
    by (simp only: of_nat_of_char)
  also have "\<dots> = of_nat ((48 + k) mod 256)"
    by (simp only: of_char_of)
  also have "\<dots> = 48 + int k" using k by simp
  finally show ?thesis using k by (simp add: charToInt_def)
qed

lemma to_string_digit: "k < 10 \<Longrightarrow> to_string k = [char_of (48 + k)]"
  by (simp add: to_string.simps)

text \<open>
  \<^verbatim>\<open>getVar\<close> reads one character of the index: the name of a symbol of a qubit below 10 is
  decoded to the variable of that qubit; the decimal name of qubit 10 is decoded to the
  variable of qubit 1.
\<close>

lemma getVar_generateSymbol:
  assumes "k < n" and "k < 10"
  shows "getVar (qubitVars n) (generateSymbol ''axx'' k) = Normal (4 * k)"
    and "getVar (qubitVars n) (generateSymbol ''axz'' k) = Normal (4 * k + 1)"
    and "getVar (qubitVars n) (generateSymbol ''azx'' k) = Normal (4 * k + 2)"
    and "getVar (qubitVars n) (generateSymbol ''azz'' k) = Normal (4 * k + 3)"
  using assms
  by (simp_all add: getVar_def generateSymbol_def to_string_digit charAt_def charToInt_digit
      vecAt_def qubitVars_def Let_def)

lemma getVar_generateSymbol_10:
  "generateSymbol ''azx'' 10 = Variable ''azx10''"
  "getVar (qubitVars 11) (generateSymbol ''azx'' 10) = Normal (4 * 1 + 2)"
  by (simp_all add: getVar_def generateSymbol_def to_string.simps char_of_digits charAt_def
      charToInt_def vecAt_def qubitVars_def Let_def)

lemma forEach_getVar:
  assumes "\<forall>c \<in> set cs. getVar av c = Normal (h c)"
  shows "forEach (\<lambda>c e. andThen (getVar av c) (\<lambda>v. Normal (linAddVar e v))) cs e0 =
         Normal (e0\<lparr>lin_terms := lin_terms e0 @ map (\<lambda>c. (1, h c)) cs\<rparr>)"
  using assms
proof (induction cs arbitrary: e0)
  case Nil
  show ?case by simp
next
  case (Cons c cs)
  then show ?case by (simp add: linAddVar_def)
qed

lemma evalLin_vars:
  "evalLin a \<lparr>lin_const = 0, lin_terms = map (\<lambda>v. (1, v)) vs\<rparr> = sum_list (map a vs)"
  by (simp add: evalLin_def comp_def)

lemma lhsEntry_linearised:
  assumes i: "i < n" and n: "n \<le> 10"
    and sfix: "simplifiedTerm env (lhsEntry graph n R S i j) = lhsEntry graph n R S i j"
  shows "toGRBLinExpression env (qubitVars n) (lhsEntry graph n R S i j) =
         Normal \<lparr>lin_const = 0, lin_terms = map (\<lambda>v. (1, v)) (entryHandles graph n R S i j)\<rparr>"
proof -
  define h where "h = (\<lambda>c. case getVar (qubitVars n) c of Normal v \<Rightarrow> v | _ \<Rightarrow> 0)"
  let ?cs = "t_variables (lhsEntry graph n R S i j)"
  have ok: "\<forall>c \<in> set ?cs. getVar (qubitVars n) c = Normal (h c)"
    using i n by (auto simp: lhsEntry_def h_def getVar_generateSymbol)
  have hs: "map h ?cs = entryHandles graph n R S i j"
    using i n
    by (auto simp: lhsEntry_def h_def entryHandles_def getVar_generateSymbol comp_def
        intro!: map_cong)
  have "toGRBLinExpression env (qubitVars n) (lhsEntry graph n R S i j) =
        Normal (linZero\<lparr>lin_terms := lin_terms linZero @ map (\<lambda>c. (1, h c)) ?cs\<rparr>)"
    unfolding toGRBLinExpression_def sfix Let_def
    by (simp add: forEach_getVar [OF ok]) (simp add: lhsEntry_def)
  also have "map (\<lambda>c. (1 :: real, h c)) ?cs = map (\<lambda>v. (1, v)) (map h ?cs)"
    by (simp add: comp_def)
  finally show ?thesis by (simp add: linZero_def hs)
qed

lemma matrix_binary:
  "matrixR RS k j = 0 \<or> matrixR RS k j = 1" "matrixS RS k j = 0 \<or> matrixS RS k j = 1"
  by (simp_all add: matrixR_def matrixS_def Pauli_x_of_bool Pauli_z_of_bool)

lemma sum_entryHandles:
  "sum_list (map a (entryHandles graph n R S i j)) =
     sum_list (map (\<lambda>k. (if adjacencyMatrix graph i k \<and> R k j = 1 then a (4 * k) else 0) +
                        (if adjacencyMatrix graph i k \<and> S k j = 1 then a (4 * k + 1) else 0))
               [0..<n]) +
     (if R i j = 1 then a (4 * i + 2) else 0) + (if S i j = 1 then a (4 * i + 3) else (0::real))"
  by (simp add: entryHandles_def sum_list_map_filter' comp_def sum_list_addf cong: if_cong)

lemma of_int_sum_list_map: "real_of_int (sum_list (map f xs)) = sum_list (map (\<lambda>x. real_of_int (f x)) xs)"
  by (induction xs) simp_all

lemma definingExpr_real:
  assumes bin: "\<And>v. v < 4 * n \<Longrightarrow> a v = 0 \<or> a v = 1"
    and entry: "gate_entry env 0 = 0" "gate_entry env 1 = 1"
    and i: "i < n"
  shows "real_of_int (definingExpr graph n RS (map (gateOf env a) [0..<n]) i j) =
         sum_list (map a (entryHandles graph n (matrixR RS) (matrixS RS) i j))"
proof -
  have g: "real_of_int (gate_entry env (a v)) = a v" if "v < 4 * n" for v
    using bin [OF that] entry by auto
  have gk: "real_of_int (gate_axx (map (gateOf env a) [0..<n] ! k)) = a (4 * k)"
           "real_of_int (gate_axz (map (gateOf env a) [0..<n] ! k)) = a (4 * k + 1)"
           "real_of_int (gate_azx (map (gateOf env a) [0..<n] ! k)) = a (4 * k + 2)"
           "real_of_int (gate_azz (map (gateOf env a) [0..<n] ! k)) = a (4 * k + 3)"
    if "k < n" for k
    using that by (simp_all add: gateOf_def g)
  have summand: "real_of_int (of_bool (adjacencyMatrix graph i k) *
           (gate_axx (map (gateOf env a) [0..<n] ! k) * matrixR RS k j +
            gate_axz (map (gateOf env a) [0..<n] ! k) * matrixS RS k j)) =
         (if adjacencyMatrix graph i k \<and> matrixR RS k j = 1 then a (4 * k) else 0) +
         (if adjacencyMatrix graph i k \<and> matrixS RS k j = 1 then a (4 * k + 1) else 0)"
    if "k < n" for k
    using matrix_binary [of RS k j] gk [OF that] by auto
  have "map (\<lambda>k. real_of_int (of_bool (adjacencyMatrix graph i k) *
           (gate_axx (map (gateOf env a) [0..<n] ! k) * matrixR RS k j +
            gate_axz (map (gateOf env a) [0..<n] ! k) * matrixS RS k j))) [0..<n] =
        map (\<lambda>k. (if adjacencyMatrix graph i k \<and> matrixR RS k j = 1 then a (4 * k) else 0) +
         (if adjacencyMatrix graph i k \<and> matrixS RS k j = 1 then a (4 * k + 1) else 0)) [0..<n]"
    by (rule map_cong [OF refl], rule summand) simp
  moreover have "real_of_int (gate_azx (map (gateOf env a) [0..<n] ! i) * matrixR RS i j) =
      (if matrixR RS i j = 1 then a (4 * i + 2) else 0)"
    using matrix_binary(1) [of RS i j] gk [OF i] by auto
  moreover have "real_of_int (gate_azz (map (gateOf env a) [0..<n] ! i) * matrixS RS i j) =
      (if matrixS RS i j = 1 then a (4 * i + 3) else 0)"
    using matrix_binary(2) [of RS i j] gk [OF i] by auto
  ultimately show ?thesis
    unfolding definingExpr_def sum_entryHandles
    by (simp only: of_int_add of_int_sum_list_map)
qed

lemma satisfies_binary:
  assumes sat: "satisfies (builtModel env n numEqs lhs) a" and v: "v < 4 * n"
  shows "a v = 0 \<or> a v = 1"
proof -
  have "concat (map qubitDecls [0..<n]) ! v \<in> set (concat (map qubitDecls [0..<n]))"
    using v by (intro nth_mem) simp
  then have "var_type (concat (map qubitDecls [0..<n]) ! v) = GRB_BINARY"
    by (auto simp: qubitDecls_def binaryDecl_def)
  then have ty: "var_type (m_vars (builtModel env n numEqs lhs) ! v) = GRB_BINARY"
    using v by (simp add: builtModel_def nth_append)
  have "v < length (m_vars (builtModel env n numEqs lhs))" using v by (simp add: builtModel_def)
  with sat have "varAdmits (m_vars (builtModel env n numEqs lhs) ! v) (a v)"
    by (simp add: satisfies_def list_all_iff)
  then show ?thesis using ty by (simp add: varAdmits_def)
qed

lemma satisfies_half:
  assumes sat: "satisfies (builtModel env n numEqs lhs) a"
    and e: "e < length lhs" and eq: "e < numEqs"
  shows "\<exists>k::int. evalLin a (linOf env (qubitVars n) (lhs ! e)) = 2 * of_int k"
proof -
  let ?M = "builtModel env n numEqs lhs"
  have "m_constrs ?M ! e \<in> set (m_constrs ?M)"
    using e by (intro nth_mem) (simp add: builtModel_constrs)
  with sat have "constrHolds a (m_constrs ?M ! e)"
    by (simp add: satisfies_def list_all_iff)
  then have h: "evalLin a (linOf env (qubitVars n) (lhs ! e)) * 0.5 = a (4 * n + e)"
    using e by (simp add: builtModel_constrs halfConstr_def constrHolds_def evalLin_linScale)
  have "4 * n + e < length (m_vars ?M)" using eq by (simp add: builtModel_vars)
  with sat have "varAdmits (m_vars ?M ! (4 * n + e)) (a (4 * n + e))"
    by (simp add: satisfies_def list_all_iff)
  then have i: "of_int \<lfloor>a (4 * n + e)\<rfloor> = a (4 * n + e)"
    using eq unfolding builtModel_vars(2) [OF eq] varAdmits_def dummyDecl_def by simp
  have "evalLin a (linOf env (qubitVars n) (lhs ! e)) = 2 * of_int \<lfloor>a (4 * n + e)\<rfloor>"
    unfolding i using h by simp
  then show ?thesis by blast
qed

lemma lhsEntry_in_lhsMatrix:
  "i < n \<Longrightarrow> j < m \<Longrightarrow> lhsEntry graph n R S i j \<in> set (lhsMatrix graph n m R S)"
proof -
  assume i: "i < n" and j: "j < m"
  have "map (\<lambda>j. lhsEntry graph n R S i j) [0..<m]
      \<in> set (map (\<lambda>i. map (\<lambda>j. lhsEntry graph n R S i j) [0..<m]) [0..<n])"
    using i by (simp add: image_iff) (rule bexI [of _ i], simp_all)
  moreover have "lhsEntry graph n R S i j \<in> set (map (\<lambda>j. lhsEntry graph n R S i j) [0..<m])"
    using j by (simp add: image_iff) (rule bexI [of _ j], simp_all)
  ultimately show ?thesis unfolding lhsMatrix_def set_concat by blast
qed

lemma tryCatch_defining:
  assumes sound: "soundSolver env"
    and entry: "gate_entry env 0 = 0" "gate_entry env 1 = 1"
    and sfix: "simplifiedFixes env (lhsMatrix graph n m (matrixR RS) (matrixS RS))"
    and n10: "n \<le> 10"
    and ret: "tryCatch env n (n * m) (lhsMatrix graph n m (matrixR RS) (matrixS RS)) =
              Returned msgs (Some gates)"
  shows "length gates = n \<and> (\<forall>i<n. \<forall>j<m. definingExpr graph n RS gates i j mod 2 = 0)"
proof -
  let ?lhs = "lhsMatrix graph n m (matrixR RS) (matrixS RS)"
  define a where "a = snd (grb_optimize env (builtModel env n (n * m) ?lhs))"
  from ret have tb: "tryBlock env n (n * m) ?lhs = Normal (Some gates)"
    by (simp add: tryCatch_Some)
  note T = tryBlock_Some [OF tb]
  from T have gates: "gates = map (gateOf env a) [0..<n]" by (simp add: a_def)
  from T sound have sat: "satisfies (builtModel env n (n * m) ?lhs) a"
    by (simp add: soundSolver_def a_def)
  have "definingExpr graph n RS gates i j mod 2 = 0" if i: "i < n" and j: "j < m" for i j
  proof -
    let ?row = "lhsEntry graph n (matrixR RS) (matrixS RS) i j"
    have mem: "?row \<in> set ?lhs" by (rule lhsEntry_in_lhsMatrix [OF i j])
    then obtain e where e: "e < length ?lhs" and row: "?lhs ! e = ?row"
      by (auto simp: in_set_conv_nth)
    from e have eq: "e < n * m" by simp
    from satisfies_half [OF sat e eq] obtain k :: int where
      k: "evalLin a (linOf env (qubitVars n) ?row) = 2 * of_int k"
      unfolding row by blast
    from sfix mem have "simplifiedTerm env ?row = ?row"
      by (simp add: simplifiedFixes_def list_all_iff)
    from lhsEntry_linearised [OF i n10 this]
    have "linOf env (qubitVars n) ?row =
        \<lparr>lin_const = 0, lin_terms = map (\<lambda>v. (1, v))
           (entryHandles graph n (matrixR RS) (matrixS RS) i j)\<rparr>"
      by (simp add: linOf_def)
    then have "evalLin a (linOf env (qubitVars n) ?row) =
        sum_list (map a (entryHandles graph n (matrixR RS) (matrixS RS) i j))"
      by (simp only: evalLin_vars)
    also have "\<dots> = real_of_int (definingExpr graph n RS gates i j)"
      unfolding gates
      by (rule definingExpr_real [symmetric, OF satisfies_binary [OF sat] entry i])
    finally have "real_of_int (definingExpr graph n RS gates i j) = real_of_int (2 * k)"
      using k by simp
    then have "definingExpr graph n RS gates i j = 2 * k" by (simp only: of_int_eq_iff)
    then show ?thesis by simp
  qed
  then show ?thesis by (simp add: gates)
qed

text \<open>
  C4, amended. For every graph on \<open>n\<close> qubits and every sequence of exactly \<open>n\<close> generators,
  the fixed-size overload and the dynamic one return the same result with the same
  collaborators, so they report the same feasibility outcome. When moreover \<open>n \<le> 10\<close> (the
  qubits whose symbol names \<^verbatim>\<open>getVar\<close> decodes), the solver is sound, the conversion to a
  gate entry maps 0 and 1 to themselves and \<^verbatim>\<open>simplified\<close> leaves the simplified entries of
  \<^verbatim>\<open>lhs\<close> as they are, a sequence returned by either overload has one gate per qubit, every
  gate is symplectic, and the gates satisfy the defining equation system.
\<close>

theorem overloads_agree:
  assumes nv: "numVertices graph = n" and m: "length RS = n"
  shows "findHTCircuit_fixed env n graph RS = findHTCircuit env graph RS \<and>
    (n \<le> 10 \<and> soundSolver env \<and> gate_entry env 0 = 0 \<and> gate_entry env 1 = 1 \<and>
     simplifiedFixes env (lhsMatrix graph n n (matrixR RS) (matrixS RS)) \<longrightarrow>
     (\<forall>msgs gates.
        findHTCircuit_fixed env n graph RS = Returned msgs (Some gates) \<or>
        findHTCircuit env graph RS = Returned msgs (Some gates) \<longrightarrow>
        length gates = n \<and> (\<forall>g \<in> set gates. symplectic g) \<and>
        definingSystem graph n RS gates))"
proof -
  have same: "findHTCircuit_fixed env n graph RS = findHTCircuit env graph RS"
    by (simp add: findHTCircuit_fixed_def findHTCircuit_def nv m)
  have valid: "length gates = n \<and> (\<forall>g \<in> set gates. symplectic g) \<and>
        definingSystem graph n RS gates"
    if n10: "n \<le> 10"
      and sound: "soundSolver env" and entry: "gate_entry env 0 = 0" "gate_entry env 1 = 1"
      and sfix: "simplifiedFixes env (lhsMatrix graph n n (matrixR RS) (matrixS RS))"
      and ret: "findHTCircuit env graph RS = Returned msgs (Some gates)"
    for msgs gates
  proof -
    from findHTCircuit_Returned [OF ret]
    have tc: "tryCatch env n (n * n) (lhsMatrix graph n n (matrixR RS) (matrixS RS)) =
        Returned msgs (Some gates)"
      by (simp add: nv m)
    from tryCatch_defining [OF sound entry sfix n10 tc]
    have len: "length gates = n" and
      def: "\<forall>i<n. \<forall>j<n. definingExpr graph n RS gates i j mod 2 = 0"
      by blast+
    have sym: "\<forall>g \<in> set gates. symplectic g"
      using tryCatch_symplectic [OF sound entry tc] by (simp add: list_all_iff)
    from def have "definingSystem graph n RS gates"
      by (simp add: definingSystem_def list_all_iff m)
    with len sym show ?thesis by blast
  qed
  have both: "length gates = n \<and> (\<forall>g \<in> set gates. symplectic g) \<and>
        definingSystem graph n RS gates"
    if "n \<le> 10" "soundSolver env" "gate_entry env 0 = 0" "gate_entry env 1 = 1"
      "simplifiedFixes env (lhsMatrix graph n n (matrixR RS) (matrixS RS))"
      "findHTCircuit_fixed env n graph RS = Returned msgs (Some gates) \<or>
       findHTCircuit env graph RS = Returned msgs (Some gates)"
    for msgs gates
    using that valid [of msgs gates] unfolding same by blast
  show ?thesis
  proof (intro conjI impI allI)
    show "findHTCircuit_fixed env n graph RS = findHTCircuit env graph RS" by (rule same)
  next
    fix msgs gates
    assume h: "n \<le> 10 \<and> soundSolver env \<and> gate_entry env 0 = 0 \<and> gate_entry env 1 = 1 \<and>
      simplifiedFixes env (lhsMatrix graph n n (matrixR RS) (matrixS RS))"
      and r: "findHTCircuit_fixed env n graph RS = Returned msgs (Some gates) \<or>
        findHTCircuit env graph RS = Returned msgs (Some gates)"
    from h r have v: "length gates = n \<and> (\<forall>g \<in> set gates. symplectic g) \<and>
        definingSystem graph n RS gates"
      by (intro both) simp_all
    from v show "length gates = n" by simp
    from v show "\<forall>g \<in> set gates. symplectic g" by simp
    from v show "definingSystem graph n RS gates" by simp
  qed
qed

lemma simplifiedFixes_exampleEnv: "simplifiedFixes exampleEnv ts"
  by (simp add: simplifiedFixes_def exampleEnv_simps list_all_iff)

lemma fixed_X:
  "findHTCircuit_fixed exampleEnv 1 (emptyGraph 1) [Pauli_of_string ''X''] =
     findHTCircuit exampleEnv (emptyGraph 1) [Pauli_of_string ''X'']"
  by (simp add: findHTCircuit_fixed_def findHTCircuit_def emptyGraph_def)

theorem overloads_agree_witness:
  "numVertices (emptyGraph 1) = 1 \<and> length [Pauli_of_string ''X''] = 1 \<and> (1 :: nat) \<le> 10 \<and>
   soundSolver exampleEnv \<and> gate_entry exampleEnv 0 = 0 \<and> gate_entry exampleEnv 1 = 1 \<and>
   simplifiedFixes exampleEnv
     (lhsMatrix (emptyGraph 1) 1 1 (matrixR [Pauli_of_string ''X''])
        (matrixS [Pauli_of_string ''X''])) \<and>
   findHTCircuit exampleEnv (emptyGraph 1) [Pauli_of_string ''X''] =
     Returned [] (Some [\<lparr>gate_axx = 1, gate_axz = 0, gate_azx = 0, gate_azz = 1\<rparr>]) \<and>
   findHTCircuit_fixed exampleEnv 1 (emptyGraph 1) [Pauli_of_string ''X''] =
     Returned [] (Some [\<lparr>gate_axx = 1, gate_axz = 0, gate_azx = 0, gate_azz = 1\<rparr>]) \<and>
   definingSystem (emptyGraph 1) 1 [Pauli_of_string ''X'']
     [\<lparr>gate_axx = 1, gate_axz = 0, gate_azx = 0, gate_azz = 1\<rparr>]"
proof -
  let ?RS = "[Pauli_of_string ''X'']"
  let ?g = "\<lparr>gate_axx = 1, gate_axz = 0, gate_azx = 0, gate_azz = 1\<rparr>"
  have nv: "numVertices (emptyGraph 1) = 1" by (simp add: emptyGraph_def)
  have m: "length ?RS = 1" by simp
  have e: "gate_entry exampleEnv 0 = 0" "gate_entry exampleEnv 1 = 1"
    by (simp_all add: exampleEnv_simps)
  note sf = simplifiedFixes_exampleEnv
    [of "lhsMatrix (emptyGraph 1) 1 1 (matrixR ?RS) (matrixS ?RS)"]
  note T = overloads_agree [OF nv m, of exampleEnv]
  from T have same: "findHTCircuit_fixed exampleEnv 1 (emptyGraph 1) ?RS =
      findHTCircuit exampleEnv (emptyGraph 1) ?RS"
    by (rule conjunct1)
  have n10: "(1 :: nat) \<le> 10" by simp
  from T [THEN conjunct2, rule_format, OF conjI [OF n10 conjI [OF soundSolver_exampleEnv
      conjI [OF e(1) conjI [OF e(2) sf]]]] disjI2 [OF run_X]]
  have d: "definingSystem (emptyGraph 1) 1 ?RS [?g]" by blast
  show ?thesis
    by (intro conjI nv m n10 soundSolver_exampleEnv e sf run_X d) (simp only: same run_X)
qed

text \<open>
  Beyond ten qubits the names are no longer read back as the qubits they name. With eleven
  qubits, the symbol \<^verbatim>\<open>azx10\<close> of qubit 10 is decoded to the variable \<^verbatim>\<open>azx\<close> of qubit 1:
  the only equation of the example, \<open>azx = 0\<close> for qubit 10, constrains qubit 1 instead, a
  sound solver may report \<open>azx = 1\<close> for qubit 10, and both overloads return gates that
  violate the defining system.
\<close>

lemma elevenEnv_simps:
  "grb_fault elevenEnv k = None"
  "grb_optimize elevenEnv m =
     (if satisfies m elevenValues then (2, elevenValues) else (3, elevenValues))"
  "asserts_enabled elevenEnv = True"
  "simplifiedTerm elevenEnv t = t"
  "gate_entry elevenEnv x = \<lfloor>x\<rfloor>"
  by (simp_all add: elevenEnv_def exampleEnv_simps)

lemma soundSolver_elevenEnv: "soundSolver elevenEnv"
  by (simp add: soundSolver_def elevenEnv_simps)

lemma elevenValues_binary: "elevenValues v = 0 \<or> elevenValues v = 1"
  by (simp add: elevenValues_def)

lemma matrix_eleven:
  assumes "j < 11"
  shows "matrixR elevenRS i j = (if i = 10 \<and> j = 0 then 1 else 0)"
    and "matrixS elevenRS i j = 0"
proof -
  have r0: "pauli_r (SingleX 11 10) = push_bit 10 1" and s0: "pauli_s (SingleX 11 10) = 0"
    by (simp_all add: SingleX_def setX_def Pauli_identity_def Pauli_default_def)
  have b: "bit (push_bit 10 (1 :: 64 word)) i \<longleftrightarrow> i = 10"
    unfolding bit_push_bit_iff bit_1_iff by (auto simp: possible_bit_word)
  have id: "pauli_r (Pauli_identity 11) = 0" "pauli_s (Pauli_identity 11) = 0"
    by (simp_all add: Pauli_identity_def Pauli_default_def)
  have rb: "bit (pauli_r (SingleX 11 10)) i \<longleftrightarrow> i = 10"
    by (simp only: r0 b)
  show "matrixR elevenRS i j = (if i = 10 \<and> j = 0 then 1 else 0)"
    using assms
    by (cases j) (simp_all add: matrixR_def elevenRS_def Pauli_x_of_bool rb id)
  show "matrixS elevenRS i j = 0"
    using assms
    by (cases j) (simp_all add: matrixS_def elevenRS_def Pauli_z_of_bool s0 id)
qed

lemma lhsEntry_eleven:
  assumes "j < 11"
  shows "lhsEntry (emptyGraph 11) 11 (matrixR elevenRS) (matrixS elevenRS) i j =
     \<lparr>t_numbers = [],
      t_variables = (if i = 10 \<and> j = 0 then [Variable ''azx10''] else []),
      t_products = []\<rparr>"
  using assms
  by (simp add: lhsEntry_def emptyGraph_def matrix_eleven getVar_generateSymbol_10(1))

lemma rows_eleven:
  assumes "row \<in> set (lhsMatrix (emptyGraph 11) 11 11 (matrixR elevenRS) (matrixS elevenRS))"
  shows "row = \<lparr>t_numbers = [], t_variables = [], t_products = []\<rparr> \<or>
         row = \<lparr>t_numbers = [], t_variables = [Variable ''azx10''], t_products = []\<rparr>"
proof -
  from assms obtain i j where "j < 11"
    and "row = lhsEntry (emptyGraph 11) 11 (matrixR elevenRS) (matrixS elevenRS) i j"
    by (auto simp: lhsMatrix_def)
  then show ?thesis by (simp add: lhsEntry_eleven)
qed

lemma linearise_eleven:
  "toGRBLinExpression elevenEnv (qubitVars 11)
     \<lparr>t_numbers = [], t_variables = [], t_products = []\<rparr> = Normal linZero"
  "toGRBLinExpression elevenEnv (qubitVars 11)
     \<lparr>t_numbers = [], t_variables = [Variable ''azx10''], t_products = []\<rparr> =
   Normal \<lparr>lin_const = 0, lin_terms = [(1, 6)]\<rparr>"
  using getVar_generateSymbol_10
  by (simp_all add: toGRBLinExpression_def elevenEnv_simps Let_def linZero_def linAddVar_def)

lemma linearised_eleven:
  "linearised elevenEnv 11
     (lhsMatrix (emptyGraph 11) 11 11 (matrixR elevenRS) (matrixS elevenRS))"
  unfolding linearised_iff using rows_eleven linearise_eleven by metis

lemma evalLin_eleven:
  assumes "row \<in> set (lhsMatrix (emptyGraph 11) 11 11 (matrixR elevenRS) (matrixS elevenRS))"
  shows "evalLin elevenValues (linOf elevenEnv (qubitVars 11) row) = 0"
  using rows_eleven [OF assms]
  by (auto simp: linOf_def linearise_eleven evalLin_def linZero_def elevenValues_def)

lemma satisfies_eleven:
  "satisfies (builtModel elevenEnv 11 (11 * 11)
     (lhsMatrix (emptyGraph 11) 11 11 (matrixR elevenRS) (matrixS elevenRS))) elevenValues"
proof -
  let ?lhs = "lhsMatrix (emptyGraph 11) 11 11 (matrixR elevenRS) (matrixS elevenRS)"
  let ?M = "builtModel elevenEnv 11 (11 * 11) ?lhs"
  have vars: "varAdmits (m_vars ?M ! v) (elevenValues v)" if v: "v < length (m_vars ?M)" for v
  proof (cases "v < 44")
    case True
    then have "concat (map qubitDecls [0..<11]) ! v \<in> set (concat (map qubitDecls [0..<11]))"
      by (intro nth_mem) simp
    then obtain i pre where "concat (map qubitDecls [0..<11]) ! v = binaryDecl pre i"
      by (auto simp: qubitDecls_def)
    moreover have "m_vars ?M ! v = concat (map qubitDecls [0..<11]) ! v"
      using True by (simp add: builtModel_def nth_append)
    ultimately show ?thesis
      using elevenValues_binary [of v] by (auto simp: varAdmits_def binaryDecl_def)
  next
    case False
    with v have e: "v - 44 < 11 * 11" and ve: "v = 4 * 11 + (v - 44)"
      by (simp_all add: builtModel_vars)
    from builtModel_vars(2) [OF e, of elevenEnv 11 ?lhs] ve
    have "m_vars ?M ! v = dummyDecl" by simp
    moreover from False have "elevenValues v = 0" by (simp add: elevenValues_def)
    ultimately show ?thesis by (simp add: varAdmits_def dummyDecl_def)
  qed
  have q: "qconstrHolds elevenValues (symplecticConstr i)" if "i < 11" for i
  proof (cases "i = 10")
    case True
    then show ?thesis by (simp add: qconstrHolds_def symplecticConstr_def elevenValues_def)
  next
    case False
    with that have "i < 10" by simp
    then have "4 * i < 40" "4 * i + 3 < 40" "4 * i + 1 < 40" "(4 * i + 3) mod 4 = 3"
      "(4 * i + 1) mod 4 = 1"
      by (simp_all add: mod_mult_self4)
    then show ?thesis by (simp add: qconstrHolds_def symplecticConstr_def elevenValues_def)
  qed
  have c: "constrHolds elevenValues (m_constrs ?M ! e)" if e: "e < length ?lhs" for e
  proof -
    from e have "?lhs ! e \<in> set ?lhs" by (rule nth_mem)
    from evalLin_eleven [OF this]
    have "evalLin elevenValues (linOf elevenEnv (qubitVars 11) (?lhs ! e)) = 0" .
    moreover have "elevenValues (4 * 11 + e) = 0" by (simp add: elevenValues_def)
    ultimately show ?thesis
      using e by (simp add: builtModel_constrs halfConstr_def constrHolds_def evalLin_linScale)
  qed
  have c': "list_all (constrHolds elevenValues) (m_constrs ?M)"
    unfolding list_all_length using c by (simp add: builtModel_constrs)
  have q': "list_all (qconstrHolds elevenValues) (m_qconstrs ?M)"
    using q by (simp add: builtModel_def list_all_iff)
  have v': "list_all (\<lambda>i. varAdmits (m_vars ?M ! i) (elevenValues i)) [0..<length (m_vars ?M)]"
    using vars by (simp add: list_all_iff)
  from v' q' c' show ?thesis unfolding satisfies_def by blast
qed

lemma run_eleven:
  "findHTCircuit elevenEnv (emptyGraph 11) elevenRS =
     Returned [] (Some (map (gateOf elevenEnv elevenValues) [0..<11]))"
proof -
  let ?lhs = "lhsMatrix (emptyGraph 11) 11 11 (matrixR elevenRS) (matrixS elevenRS)"
  have len: "length elevenRS = 11" by (simp add: elevenRS_def)
  have fits: "length ?lhs \<le> 11 * 11" by simp
  have opt: "grb_optimize elevenEnv (builtModel elevenEnv 11 121 ?lhs) = (2, elevenValues)"
    using satisfies_eleven by (simp add: elevenEnv_simps)
  have nf: "noFault elevenEnv 0 b" for b by (simp add: noFault_iff elevenEnv_simps)
  have "tryBlock elevenEnv 11 (11 * 11) ?lhs =
      Normal (Some (map (gateOf elevenEnv elevenValues) [0..<11]))"
    unfolding tryBlock_Some_iff [OF linearised_eleven fits] by (simp add: opt nf)
  then have "tryCatch elevenEnv 11 (11 * 11) ?lhs =
      Returned [] (Some (map (gateOf elevenEnv elevenValues) [0..<11]))"
    by (simp add: tryCatch_def)
  then show ?thesis
    by (simp add: findHTCircuit_def emptyGraph_def len generatorsReadable_def)
qed

lemma not_defining_eleven:
  "\<not> definingSystem (emptyGraph 11) 11 elevenRS (map (gateOf elevenEnv elevenValues) [0..<11])"
proof
  assume "definingSystem (emptyGraph 11) 11 elevenRS
    (map (gateOf elevenEnv elevenValues) [0..<11])"
  then have "definingExpr (emptyGraph 11) 11 elevenRS
      (map (gateOf elevenEnv elevenValues) [0..<11]) 10 0 mod 2 = 0"
    by (simp add: definingSystem_def list_all_iff elevenRS_def)
  moreover have "definingExpr (emptyGraph 11) 11 elevenRS
      (map (gateOf elevenEnv elevenValues) [0..<11]) 10 0 = 1"
    by (simp add: definingExpr_def emptyGraph_def matrix_eleven gateOf_def elevenEnv_simps
        elevenValues_def)
  ultimately show False by simp
qed

lemma overloads_eleven_qubits:
  "numVertices (emptyGraph 11) = 11 \<and> length elevenRS = 11 \<and>
   soundSolver elevenEnv \<and> gate_entry elevenEnv 0 = 0 \<and> gate_entry elevenEnv 1 = 1 \<and>
   simplifiedFixes elevenEnv
     (lhsMatrix (emptyGraph 11) 11 11 (matrixR elevenRS) (matrixS elevenRS)) \<and>
   findHTCircuit elevenEnv (emptyGraph 11) elevenRS =
     Returned [] (Some (map (gateOf elevenEnv elevenValues) [0..<11])) \<and>
   findHTCircuit_fixed elevenEnv 11 (emptyGraph 11) elevenRS =
     Returned [] (Some (map (gateOf elevenEnv elevenValues) [0..<11])) \<and>
   \<not> definingSystem (emptyGraph 11) 11 elevenRS
       (map (gateOf elevenEnv elevenValues) [0..<11])"
proof -
  have nv: "numVertices (emptyGraph 11) = 11" by (simp add: emptyGraph_def)
  have len: "length elevenRS = 11" by (simp add: elevenRS_def)
  have e: "gate_entry elevenEnv 0 = 0" "gate_entry elevenEnv 1 = 1"
    by (simp_all add: elevenEnv_simps)
  have sf: "simplifiedFixes elevenEnv
      (lhsMatrix (emptyGraph 11) 11 11 (matrixR elevenRS) (matrixS elevenRS))"
    by (simp add: simplifiedFixes_def elevenEnv_simps list_all_iff)
  have same: "findHTCircuit_fixed elevenEnv 11 (emptyGraph 11) elevenRS =
      findHTCircuit elevenEnv (emptyGraph 11) elevenRS"
    by (simp add: findHTCircuit_fixed_def findHTCircuit_def nv len)
  show ?thesis
    by (intro conjI nv len soundSolver_elevenEnv e sf run_eleven not_defining_eleven)
      (simp only: same run_eleven)
qed

lemma run_XZ_fixed:
  "findHTCircuit_fixed exampleEnv 1 (emptyGraph 1) [Pauli_of_string ''X'', Pauli_of_string ''Z''] =
     Returned [] (Some [\<lparr>gate_axx = 1, gate_axz = 0, gate_azx = 0, gate_azz = 1\<rparr>])"
proof -
  let ?RS = "[Pauli_of_string ''X'', Pauli_of_string ''Z'']"
  have "findHTCircuit_fixed exampleEnv 1 (emptyGraph 1) ?RS
      = tryCatch exampleEnv 1 1 (lhsMatrix (emptyGraph 1) 1 1 (matrixR ?RS) (matrixS ?RS))"
    by (simp add: findHTCircuit_fixed_def generatorsReadable_def)
  also have "\<dots> = tryCatch exampleEnv 1 1
      [\<lparr>t_numbers = [], t_variables = [Variable ''azx0''], t_products = []\<rparr>]"
    by (simp only: lhs_XZ_fixed)
  also have "\<dots> = Returned [] (Some [\<lparr>gate_axx = 1, gate_axz = 0, gate_azx = 0, gate_azz = 1\<rparr>])"
    by (simp add: run_defs exampleEnv_simps sat_defs)
  finally show ?thesis .
qed

lemma run_XZ:
  "findHTCircuit exampleEnv (emptyGraph 1) [Pauli_of_string ''X'', Pauli_of_string ''Z''] =
     Returned [] None"
proof -
  let ?RS = "[Pauli_of_string ''X'', Pauli_of_string ''Z'']"
  have "findHTCircuit exampleEnv (emptyGraph 1) ?RS
      = tryCatch exampleEnv 1 2 (lhsMatrix (emptyGraph 1) 1 2 (matrixR ?RS) (matrixS ?RS))"
    by (simp add: findHTCircuit_def generatorsReadable_def emptyGraph_def numeral_2_eq_2)
  also have "\<dots> = tryCatch exampleEnv 1 2
      [\<lparr>t_numbers = [], t_variables = [Variable ''azx0''], t_products = []\<rparr>,
       \<lparr>t_numbers = [], t_variables = [Variable ''azz0''], t_products = []\<rparr>]"
    by (simp only: lhs_XZ)
  also have "\<dots> = Returned [] None"
    by (simp add: run_defs exampleEnv_simps sat_defs)
  finally show ?thesis .
qed

lemma not_defining_XZ:
  "\<not> definingSystem (emptyGraph 1) 1 [Pauli_of_string ''X'', Pauli_of_string ''Z'']
       [\<lparr>gate_axx = 1, gate_axz = 0, gate_azx = 0, gate_azz = 1\<rparr>]"
  by (simp add: definingSystem_def definingExpr_def RS_XZ emptyGraph_def upt_conv_Cons)

lemma feasible_XZ_fixed:
  "satisfies (builtModel exampleEnv 1 1
     (lhsMatrix (emptyGraph 1) 1 1 (matrixR [Pauli_of_string ''X'', Pauli_of_string ''Z''])
        (matrixS [Pauli_of_string ''X'', Pauli_of_string ''Z'']))) exampleValues"
  unfolding lhs_XZ_fixed
  by (simp add: builtModel_def qubitDecls_def binaryDecl_def dummyDecl_def
      symplecticConstr_def halfConstr_def linOf_single [unfolded One_nat_def] sat_defs
      linScale_def upt_conv_Cons)

lemma infeasible_XZ:
  "\<not> (\<exists>a. satisfies (builtModel exampleEnv 1 2
     (lhsMatrix (emptyGraph 1) 1 2 (matrixR [Pauli_of_string ''X'', Pauli_of_string ''Z''])
        (matrixS [Pauli_of_string ''X'', Pauli_of_string ''Z'']))) a)"
proof
  let ?lhs = "[\<lparr>t_numbers = [], t_variables = [Variable ''azx0''], t_products = []\<rparr>,
               \<lparr>t_numbers = [], t_variables = [Variable ''azz0''], t_products = []\<rparr>]"
  assume "\<exists>a. satisfies (builtModel exampleEnv 1 2
     (lhsMatrix (emptyGraph 1) 1 2 (matrixR [Pauli_of_string ''X'', Pauli_of_string ''Z''])
        (matrixS [Pauli_of_string ''X'', Pauli_of_string ''Z'']))) a"
  then obtain a where sat: "satisfies (builtModel exampleEnv 1 2 ?lhs) a"
    unfolding lhs_XZ by blast
  from satisfies_binary [OF sat, of 2] have b2: "a 2 = 0 \<or> a 2 = 1" by simp
  from satisfies_binary [OF sat, of 3] have b3: "a 3 = 0 \<or> a 3 = 1" by simp
  have "\<exists>k::int. evalLin a (linOf exampleEnv (qubitVars 1) (?lhs ! 0)) = 2 * of_int k"
    by (rule satisfies_half [OF sat]) simp_all
  then have "\<exists>k::int. evalLin a \<lparr>lin_const = 0, lin_terms = [(1, 2)]\<rparr> = 2 * of_int k"
    by (simp only: nth_Cons_0 linOf_single)
  then obtain k :: int where "a 2 = 2 * of_int k"
    by (auto simp: evalLin_def)
  with b2 have a2: "a 2 = 0"
    by (metis mult_cancel_right1 of_int_eq_1_iff of_int_mult of_int_numeral odd_one
        dvd_triv_left)
  have "\<exists>k::int. evalLin a (linOf exampleEnv (qubitVars 1) (?lhs ! Suc 0)) = 2 * of_int k"
    by (rule satisfies_half [OF sat]) simp_all
  then have "\<exists>k::int. evalLin a \<lparr>lin_const = 0, lin_terms = [(1, 3)]\<rparr> = 2 * of_int k"
    by (simp only: nth_Cons_Suc nth_Cons_0 linOf_single)
  then obtain k' :: int where "a 3 = 2 * of_int k'"
    by (auto simp: evalLin_def)
  with b3 have a3: "a 3 = 0"
    by (metis mult_cancel_right1 of_int_eq_1_iff of_int_mult of_int_numeral odd_one
        dvd_triv_left)
  from satisfies_qubit [OF sat, of 0] have "a 0 * a 3 + a 1 * a 2 = 1"
    by (simp add: numeral_2_eq_2)
  with a2 a3 show False by simp
qed

text \<open>
  C4, as stated, for every generator sequence: with one qubit, no edge and the two
  generators \<open>X\<close> and \<open>Z\<close>, the fixed-size overload reads only the first generator. Its
  model is satisfied by the identity gate, which it returns with a sound solver, and which
  violates the defining equation of the second generator; the model of the dynamic overload
  has no solution at all, and that overload returns the empty result.
\<close>

theorem overloads_disagree_counterexample:
  "numVertices (emptyGraph 1) = 1 \<and>
   findHTCircuit_fixed exampleEnv 1 (emptyGraph 1)
       [Pauli_of_string ''X'', Pauli_of_string ''Z''] =
     Returned [] (Some [\<lparr>gate_axx = 1, gate_axz = 0, gate_azx = 0, gate_azz = 1\<rparr>]) \<and>
   findHTCircuit exampleEnv (emptyGraph 1) [Pauli_of_string ''X'', Pauli_of_string ''Z''] =
     Returned [] None \<and>
   \<not> definingSystem (emptyGraph 1) 1 [Pauli_of_string ''X'', Pauli_of_string ''Z'']
       [\<lparr>gate_axx = 1, gate_axz = 0, gate_azx = 0, gate_azz = 1\<rparr>] \<and>
   soundSolver exampleEnv \<and>
   satisfies (builtModel exampleEnv 1 1
     (lhsMatrix (emptyGraph 1) 1 1 (matrixR [Pauli_of_string ''X'', Pauli_of_string ''Z''])
        (matrixS [Pauli_of_string ''X'', Pauli_of_string ''Z'']))) exampleValues \<and>
   \<not> (\<exists>a. satisfies (builtModel exampleEnv 1 2
     (lhsMatrix (emptyGraph 1) 1 2 (matrixR [Pauli_of_string ''X'', Pauli_of_string ''Z''])
        (matrixS [Pauli_of_string ''X'', Pauli_of_string ''Z'']))) a)"
proof -
  have nv: "numVertices (emptyGraph 1) = 1" by (simp add: emptyGraph_def)
  show ?thesis
    by (intro conjI nv run_XZ_fixed run_XZ not_defining_XZ soundSolver_exampleEnv
        feasible_XZ_fixed infeasible_XZ)
qed

end
